theory Spec2Isabelle
  imports Complex_Main "HOL-Library.Sublist"
begin

section \<open>ReelAutoScroll: the content script, versions 1.2 and 1.3\<close>

text \<open>
  The repository holds two versions of one content script: \<^verbatim>\<open>content.js\<close> (version 1.2, the
  advancement is driven by the \<^verbatim>\<open>ended\<close> event alone) and the enhanced variant (version 1.3,
  which adds the voice trigger). \<open>scrollToNextReel\<close> differs between them and is embedded twice,
  as \<open>scrollToNextReel_v12\<close> and \<open>scrollToNextReel_v13\<close>. \<open>addListenerToVideo\<close> differs in the
  listener it registers and in its log message only, and takes the version as an argument, as
  does \<open>handleDomChanges\<close>, which is the same in both. The voice functions and the script from
  top to bottom are those of version 1.3.

  Conventions of the embedding:
  \<^item> an element is named by a number (its identity); the page is a store from identities to
    the properties the script reads, with the list of the document's elements in tree order
    (the order of \<^verbatim>\<open>querySelector\<close> and \<^verbatim>\<open>querySelectorAll\<close>);
  \<^item> what the script does to the outside (console output, a click, a scroll request, a call
    of \<^verbatim>\<open>recognition.start()\<close>) is a list of effects, in program order; a function whose body
    can throw returns its effects together with its completion, normal or an exception;
  \<^item> \<^verbatim>\<open>scrollHeight\<close>, \<^verbatim>\<open>clientHeight\<close> and \<^verbatim>\<open>window.innerHeight\<close> are integers, as the DOM rounds
    them; the coordinates of a bounding rectangle are exact reals, and the quotient of two
    of them is a JavaScript number with the values \<^verbatim>\<open>NaN\<close> and \<^verbatim>\<open>Infinity\<close> that a division
    by zero produces (rounding of the quotient is not modelled);
  \<^item> strings are lists of characters with code points below 256.
\<close>

subsection \<open>Effects\<close>

datatype level = Log | Warn | Error

datatype logarg = Node nat | Num int | Str string | Exn string

datatype effect =
    Console level string "logarg list"
  | Click nat
  | ElementScrollBy nat int int string
  | WindowScrollBy int int
  | RecognitionStart


fun is_console :: "effect \<Rightarrow> bool" where
  "is_console (Console _ _ _) = True"
| "is_console _ = False"

definition actions :: "effect list \<Rightarrow> effect list" where
  "actions es = filter (\<lambda>e. \<not> is_console e) es"

text \<open>
  A call either returns or throws; what it did before is kept in both cases. \<open>seq\<close> is the
  semicolon and \<open>try_catch\<close> the \<^verbatim>\<open>try { ... } catch (e) { ... }\<close> of the script.
\<close>

datatype 'a completion = Normal 'a | Throw string

definition seq ::
  "effect list \<times> 'a completion \<Rightarrow> ('a \<Rightarrow> effect list \<times> 'b completion) \<Rightarrow> effect list \<times> 'b completion"
where
  "seq m f =
     (case snd m of
        Throw e \<Rightarrow> (fst m, Throw e)
      | Normal a \<Rightarrow> (fst m @ fst (f a), snd (f a)))"

definition try_catch ::
  "effect list \<times> 'a completion \<Rightarrow> (string \<Rightarrow> effect list \<times> 'a completion) \<Rightarrow> effect list \<times> 'a completion"
where
  "try_catch m handler =
     (case snd m of
        Throw e \<Rightarrow> (fst m @ fst (handler e), snd (handler e))
      | Normal a \<Rightarrow> m)"

definition console :: "level \<Rightarrow> string \<Rightarrow> logarg list \<Rightarrow> effect list \<times> unit completion" where
  "console l msg args = ([Console l msg args], Normal ())"

subsection \<open>JavaScript numbers produced by a division\<close>

datatype jsnum = Finite real | PosInfinity | NegInfinity | NaN

definition js_div :: "real \<Rightarrow> real \<Rightarrow> jsnum" where
  "js_div a b =
     (if b \<noteq> 0 then Finite (a / b)
      else if a = 0 then NaN
      else if 0 < a then PosInfinity
      else NegInfinity)"

fun js_gt :: "jsnum \<Rightarrow> jsnum \<Rightarrow> bool" where
  "js_gt NaN _ = False"
| "js_gt _ NaN = False"
| "js_gt (Finite a) (Finite b) = (b < a)"
| "js_gt (Finite _) PosInfinity = False"
| "js_gt (Finite _) NegInfinity = True"
| "js_gt PosInfinity PosInfinity = False"
| "js_gt PosInfinity _ = True"
| "js_gt NegInfinity _ = False"

subsection \<open>The page\<close>

text \<open>
  A \<^verbatim>\<open>DOMRect\<close> is given by \<open>y\<close> and \<open>height\<close>; its \<^verbatim>\<open>top\<close> and \<^verbatim>\<open>bottom\<close> are derived from
  them as the DOM geometry interface defines them.
\<close>

record domrect =
  y :: real
  height :: real

definition top_rect :: "domrect \<Rightarrow> real" where
  "top_rect r = min (y r) (y r + height r)"

definition bottom_rect :: "domrect \<Rightarrow> real" where
  "bottom_rect r = max (y r) (y r + height r)"

text \<open>
  Of an element the script reads its name, its label, its parent and its geometry. \<open>isHTMLElement\<close>
  says whether the element implements \<^verbatim>\<open>HTMLElement\<close>, the interface that has \<^verbatim>\<open>click()\<close>; an element
  of SVG or MathML does not, and a selector on an attribute matches it all the same.
\<close>

record element =
  localName :: string
  isHTMLElement :: bool
  ariaLabel :: "string option"
  parentElement :: "nat option"
  scrollHeight :: int
  clientHeight :: int
  boundingClientRect :: domrect

record page =
  document :: "nat list"
  body :: "nat option"
  node :: "nat \<Rightarrow> element"
  innerHeight :: int

text \<open>
  The selector \<^verbatim>\<open>[aria-label*="Next"]\<close>: the attribute is present and its value has \<^verbatim>\<open>Next\<close> as a
  substring, which is \<^const>\<open>sublist\<close>.
\<close>

definition NEXT_BUTTON_SELECTOR :: "element \<Rightarrow> bool" where
  "NEXT_BUTTON_SELECTOR e =
     (case ariaLabel e of None \<Rightarrow> False | Some l \<Rightarrow> sublist ''Next'' l)"

definition REEL_VIDEO_SELECTOR :: "element \<Rightarrow> bool" where
  "REEL_VIDEO_SELECTOR e = (localName e = ''video'')"

definition querySelector :: "page \<Rightarrow> (element \<Rightarrow> bool) \<Rightarrow> nat option" where
  "querySelector p sel = find (\<lambda>i. sel (node p i)) (document p)"

definition querySelectorAll :: "page \<Rightarrow> (element \<Rightarrow> bool) \<Rightarrow> nat list" where
  "querySelectorAll p sel = filter (\<lambda>i. sel (node p i)) (document p)"

subsection \<open>The advancement: \<open>scrollToNextReel\<close>\<close>

definition visibleHeight :: "page \<Rightarrow> nat \<Rightarrow> real" where
  "visibleHeight p v =
     (let rect = boundingClientRect (node p v)
      in max 0 (min (bottom_rect rect) (real_of_int (innerHeight p)) - max (top_rect rect) 0))"

definition visibility :: "page \<Rightarrow> nat \<Rightarrow> jsnum" where
  "visibility p v = js_div (visibleHeight p v) (height (boundingClientRect (node p v)))"

text \<open>The loop over the videos, with the running \<open>maxVisibility\<close> and \<open>currentVideo\<close>.\<close>

fun most_visible :: "page \<Rightarrow> nat list \<Rightarrow> jsnum \<Rightarrow> nat option \<Rightarrow> nat option" where
  "most_visible p [] maxVisibility currentVideo = currentVideo"
| "most_visible p (video # videos) maxVisibility currentVideo =
     (if js_gt (visibility p video) maxVisibility
      then most_visible p videos (visibility p video) (Some video)
      else most_visible p videos maxVisibility currentVideo)"

text \<open>The walk up the ancestors: \<open>for (let i = 0; i < 15 && parent; i++)\<close>.\<close>

function find_scrollable :: "page \<Rightarrow> nat \<Rightarrow> nat option \<Rightarrow> nat option" where
  "find_scrollable p i parent =
     (if i < 15 then
        (case parent of
           None \<Rightarrow> None
         | Some q \<Rightarrow>
             if scrollHeight (node p q) > clientHeight (node p q) + 50 then Some q
             else find_scrollable p (i + 1) (parentElement (node p q)))
      else None)"
  by pat_completeness auto
termination
  by (relation "measure (\<lambda>(p, i, parent). 15 - i)") auto

declare find_scrollable.simps [simp del]

definition scroll_container :: "page \<Rightarrow> nat \<Rightarrow> effect list" where
  "scroll_container p c =
     (let scrollAmount = clientHeight (node p c)
      in [Console Log
            ''Success (Method 2): Found scrollable container. Scrolling by ${scrollAmount}px.''
            [Num scrollAmount, Node c],
          ElementScrollBy c scrollAmount 0 ''smooth''])"

text \<open>
  \<^verbatim>\<open>nextButton.click()\<close>: the element found by the selector is any element of the document. On
  one that is not an \<^verbatim>\<open>HTMLElement\<close> the property \<^verbatim>\<open>click\<close> is undefined and the call throws a
  \<^verbatim>\<open>TypeError\<close>, which nothing in \<open>scrollToNextReel\<close> catches.
\<close>

definition click :: "page \<Rightarrow> nat \<Rightarrow> effect list \<times> unit completion" where
  "click p e =
     (if isHTMLElement (node p e) then ([Click e], Normal ()) else ([], Throw ''TypeError''))"

text \<open>Version 1.3: no argument; the current video comes from the visibility scan.\<close>

definition scrollToNextReel_v13 :: "page \<Rightarrow> effect list \<times> unit completion" where
  "scrollToNextReel_v13 p =
     seq (console Log ''Scroll triggered. Attempting to find next reel.'' [])
       (\<lambda>_. case querySelector p NEXT_BUTTON_SELECTOR of
          Some nextButton \<Rightarrow>
            seq (console Log ''Success (Method 1): Found 'Next' button. Clicking it.''
                   [Node nextButton])
              (\<lambda>_. click p nextButton)
        | None \<Rightarrow>
            seq (console Warn
                   ''Could not find 'Next' button. Trying Method 2: Find and scroll container.'' [])
              (\<lambda>_. case most_visible p (querySelectorAll p REEL_VIDEO_SELECTOR) (Finite 0) None of
                 None \<Rightarrow>
                   ([Console Error ''Method 2 Failed: Could not find a visible video to scroll from.'' [],
                     Console Warn ''Using Method 3: Final fallback scroll.'' [],
                     WindowScrollBy 0 (innerHeight p)], Normal ())
               | Some currentVideo \<Rightarrow>
                   (case find_scrollable p 0 (parentElement (node p currentVideo)) of
                      Some scrollableContainer \<Rightarrow>
                        (scroll_container p scrollableContainer, Normal ())
                    | None \<Rightarrow>
                        ([Console Error
                            ''Method 2 Failed: Could not find a scrollable container for the visible video.''
                            []], Normal ()))))"

text \<open>
  Version 1.2: the argument is the \<^verbatim>\<open>ended\<close> event, of which the script reads \<^verbatim>\<open>target\<close> only.
\<close>

definition scrollToNextReel_v12 :: "page \<Rightarrow> nat option \<Rightarrow> effect list \<times> unit completion" where
  "scrollToNextReel_v12 p target =
     seq (console Log ''Reel finished. Attempting smart scroll.'' [])
       (\<lambda>_. case querySelector p NEXT_BUTTON_SELECTOR of
          Some nextButton \<Rightarrow>
            seq (console Log ''Success (Method 1): Found 'Next' button. Clicking it.''
                   [Node nextButton])
              (\<lambda>_. click p nextButton)
        | None \<Rightarrow>
            seq (console Warn
                   ''Could not find 'Next' button. Trying Method 2: Find and scroll container.'' [])
              (\<lambda>_. case target of
                 None \<Rightarrow> ([Console Error ''Could not identify the video that ended.'' []], Normal ())
               | Some currentVideo \<Rightarrow>
                   (case find_scrollable p 0 (parentElement (node p currentVideo)) of
                      Some scrollableContainer \<Rightarrow>
                        (scroll_container p scrollableContainer, Normal ())
                    | None \<Rightarrow>
                        ([Console Warn
                            ''Could not find scrollable container. Using Method 3: Final fallback scroll.''
                            [],
                          WindowScrollBy 0 (innerHeight p)], Normal ()))))"

subsection \<open>Wiring the \<^verbatim>\<open>ended\<close> trigger: \<open>addListenerToVideo\<close>\<close>

datatype version = V12 | V13

text \<open>
  A listener is a function object. Version 1.2 registers the function \<open>scrollToNextReel\<close>
  itself; version 1.3 registers an arrow function, a new object at every evaluation, named here
  by its allocation number.
\<close>

datatype callback = ScrollToNextReel | Arrow nat

record video_state =
  autoScrollListenerAttached :: "string option"
  ended_listeners :: "callback list"

record session =
  continuous :: bool
  lang :: string
  interimResults :: bool
  maxAlternatives :: int

record world =
  video :: "nat \<Rightarrow> video_state"
  allocated :: nat
  observers :: "(nat \<times> bool \<times> bool) list"
  recognition :: "session option"

text \<open>A string of the \<^verbatim>\<open>dataset\<close> in a condition: absent and empty are false.\<close>

definition truthy :: "string option \<Rightarrow> bool" where
  "truthy s = (case s of None \<Rightarrow> False | Some t \<Rightarrow> t \<noteq> [])"

text \<open>\<^verbatim>\<open>addEventListener\<close> ignores a function object that is registered already.\<close>

definition addEventListener :: "callback list \<Rightarrow> callback \<Rightarrow> callback list" where
  "addEventListener ls cb = (if cb \<in> set ls then ls else ls @ [cb])"

fun addListenerToVideo :: "version \<Rightarrow> world \<Rightarrow> nat \<Rightarrow> world \<times> effect list" where
  "addListenerToVideo V12 w videoElement =
     (if truthy (autoScrollListenerAttached (video w videoElement)) then (w, [])
      else
        (w\<lparr>video := (video w)(videoElement :=
              \<lparr>autoScrollListenerAttached = Some ''true'',
               ended_listeners =
                 addEventListener (ended_listeners (video w videoElement)) ScrollToNextReel\<rparr>)\<rparr>,
         [Console Log ''Found a new Reel video. Attaching 'ended' event listener.''
            [Node videoElement]]))"
| "addListenerToVideo V13 w videoElement =
     (if truthy (autoScrollListenerAttached (video w videoElement)) then (w, [])
      else
        (w\<lparr>video := (video w)(videoElement :=
              \<lparr>autoScrollListenerAttached = Some ''true'',
               ended_listeners =
                 addEventListener (ended_listeners (video w videoElement)) (Arrow (allocated w))\<rparr>),
           allocated := Suc (allocated w)\<rparr>,
         [Console Log ''Attaching 'ended' listener to new video.'' [Node videoElement]]))"

text \<open>\<^verbatim>\<open>forEach\<close> and \<^verbatim>\<open>for ... of\<close> with a body that changes the state.\<close>

fun for_each :: "('s \<Rightarrow> 'a \<Rightarrow> 's \<times> effect list) \<Rightarrow> 's \<Rightarrow> 'a list \<Rightarrow> 's \<times> effect list" where
  "for_each f s [] = (s, [])"
| "for_each f s (x # xs) =
     (case f s x of (s', es) \<Rightarrow>
        (case for_each f s' xs of (s'', es') \<Rightarrow> (s'', es @ es')))"

subsection \<open>The mutation observer: \<open>handleDomChanges\<close>\<close>

text \<open>
  An added node is a tree: an element with its identity, its name and its children, or a
  node of another type (a text or a comment).
\<close>

datatype dom_node = ElementNode nat string "dom_node list" | OtherNode

fun subtree_videos :: "dom_node \<Rightarrow> nat list" where
  "subtree_videos (ElementNode i name kids) =
     (if name = ''video'' then [i] else []) @ concat (map subtree_videos kids)"
| "subtree_videos OtherNode = []"

fun node_querySelectorAll :: "dom_node \<Rightarrow> nat list" where
  "node_querySelectorAll (ElementNode i name kids) = concat (map subtree_videos kids)"
| "node_querySelectorAll OtherNode = []"

record mutation =
  mtype :: string
  addedNodes :: "dom_node list"

definition handle_node :: "version \<Rightarrow> world \<Rightarrow> dom_node \<Rightarrow> world \<times> effect list" where
  "handle_node ver w n =
     (case n of
        ElementNode i name kids \<Rightarrow>
          if name = ''video'' then addListenerToVideo ver w i
          else for_each (addListenerToVideo ver) w (node_querySelectorAll n)
      | OtherNode \<Rightarrow> (w, []))"

definition handleDomChanges :: "version \<Rightarrow> world \<Rightarrow> mutation list \<Rightarrow> world \<times> effect list" where
  "handleDomChanges ver w mutationsList =
     for_each
       (\<lambda>w mutation.
          if mtype mutation = ''childList'' \<and> length (addedNodes mutation) > 0
          then for_each (handle_node ver) w (addedNodes mutation)
          else (w, []))
       w mutationsList"

subsection \<open>The \<^verbatim>\<open>ended\<close> event\<close>

text \<open>
  The event is dispatched at the video that ended, which is its \<^verbatim>\<open>target\<close>. The function of
  version 1.2 receives the event; the arrow function of version 1.3 calls \<open>scrollToNextReel\<close>
  with no argument. Every listener of the video runs, in the order of registration, on the
  page as it is when the event is dispatched; an exception that a listener throws is reported
  by the platform and stops neither the dispatch nor the other listeners, so that \<open>ended\<close>
  keeps the effects of each.
\<close>

fun run_listener :: "page \<Rightarrow> nat \<Rightarrow> callback \<Rightarrow> effect list \<times> unit completion" where
  "run_listener p target ScrollToNextReel = scrollToNextReel_v12 p (Some target)"
| "run_listener p target (Arrow _) = scrollToNextReel_v13 p"

definition ended :: "world \<Rightarrow> page \<Rightarrow> nat \<Rightarrow> effect list" where
  "ended w p v = concat (map (\<lambda>cb. fst (run_listener p v cb)) (ended_listeners (video w v)))"

subsection \<open>The voice trigger: \<open>setupVoiceCommands\<close>\<close>

text \<open>
  The window of the platform: the two names under which a recognition constructor may be
  exposed. Whether a call of \<^verbatim>\<open>recognition.start()\<close> throws is decided by the platform; the
  exception of the call, if any, is an argument of \<open>recognition_start\<close>.
\<close>

record window =
  SpeechRecognition :: "string option"
  webkitSpeechRecognition :: "string option"

definition recognition_start :: "string option \<Rightarrow> effect list \<times> unit completion" where
  "recognition_start failure =
     ([RecognitionStart], case failure of None \<Rightarrow> Normal () | Some e \<Rightarrow> Throw e)"

definition is_whitespace :: "char \<Rightarrow> bool" where
  "is_whitespace c = ((of_char c :: nat) \<in> {9, 10, 11, 12, 13, 32, 160})"

definition trim :: "string \<Rightarrow> string" where
  "trim s = rev (dropWhile is_whitespace (rev (dropWhile is_whitespace s)))"

definition lower_char :: "char \<Rightarrow> char" where
  "lower_char c =
     (let n = (of_char c :: nat)
      in if (65 \<le> n \<and> n \<le> 90) \<or> (192 \<le> n \<and> n \<le> 222 \<and> n \<noteq> 215) then char_of (n + 32) else c)"

definition toLowerCase :: "string \<Rightarrow> string" where
  "toLowerCase s = map lower_char s"

text \<open>
  \<open>onresult\<close>: the event carries the list of results, each a list of alternatives (their
  transcripts). Reading the first alternative of the last result throws a \<^verbatim>\<open>TypeError\<close> when
  there is none, and an exception of \<open>scrollToNextReel\<close> leaves the handler uncaught.
\<close>

definition onresult :: "page \<Rightarrow> string list list \<Rightarrow> effect list \<times> unit completion" where
  \<open>onresult p results =
     (if results = [] then ([], Throw ''TypeError'')
      else
        (case last results of
           [] \<Rightarrow> ([], Throw ''TypeError'')
         | transcript # _ \<Rightarrow>
             (let command = toLowerCase (trim transcript)
              in seq (console Log ''Voice command heard: "${command}"'' [Str command])
                   (\<lambda>_. if command = ''next''
                        then seq (console Log '''Next' command recognized. Scrolling...'' [])
                               (\<lambda>_. scrollToNextReel_v13 p)
                        else ([], Normal ())))))\<close>

definition onend :: "string option \<Rightarrow> effect list \<times> unit completion" where
  "onend failure =
     seq (console Log ''Speech recognition service ended. Restarting...'' [])
       (\<lambda>_. recognition_start failure)"

definition onerror :: "string \<Rightarrow> effect list \<times> unit completion" where
  "onerror error =
     (if error = ''not-allowed''
      then console Error ''Microphone access denied. Voice commands will not work.'' []
      else console Error ''Speech recognition error:'' [Str error])"

definition started_message :: string where
  "started_message =
     [CHR 0xF0, CHR 0x9F, CHR 0x8E, CHR 0xA4] @ '' Voice recognition started. Say 'next' to scroll.''"

definition setupVoiceCommands ::
  "window \<Rightarrow> string option \<Rightarrow> effect list \<times> session option completion"
where
  "setupVoiceCommands win failure =
     (case (case SpeechRecognition win of
              Some ctor \<Rightarrow> Some ctor
            | None \<Rightarrow> webkitSpeechRecognition win) of
        None \<Rightarrow>
          seq (console Error ''Speech Recognition API not supported in this browser.'' [])
            (\<lambda>_. ([], Normal None))
      | Some ctor \<Rightarrow>
          (let recognition =
                 \<lparr>continuous = True, lang = ''en-US'', interimResults = False, maxAlternatives = 1\<rparr>
           in seq
                (try_catch
                   (seq (recognition_start failure) (\<lambda>_. console Log started_message []))
                   (\<lambda>e. console Error ''Could not start voice recognition:'' [Exn e]))
                (\<lambda>_. ([], Normal (Some recognition)))))"

subsection \<open>The script of version 1.3, from top to bottom\<close>

definition OBSERVER_CONFIG :: "bool \<times> bool" where
  "OBSERVER_CONFIG = (True, True)"

text \<open>
  \<^verbatim>\<open>observer.observe(document.body, OBSERVER_CONFIG)\<close> throws a \<^verbatim>\<open>TypeError\<close> when the document has
  no body yet; the rest of the script does not run then.
\<close>

definition init_v13 ::
  "window \<Rightarrow> string option \<Rightarrow> page \<Rightarrow> world \<Rightarrow> world \<times> effect list \<times> unit completion"
where
  "init_v13 win failure p w =
     (let loaded =
            Console Log ''Instagram Auto-Reel Scroller v1.3: Content script loaded.'' []
      in case body p of
           None \<Rightarrow> (w, [loaded], Throw ''TypeError'')
         | Some b \<Rightarrow>
             (let w1 = w\<lparr>observers := observers w @ [(b, OBSERVER_CONFIG)]\<rparr>
              in case for_each (addListenerToVideo V13) w1 (querySelectorAll p REEL_VIDEO_SELECTOR) of
                   (w2, es) \<Rightarrow>
                     (case setupVoiceCommands win failure of
                        (vs, Normal r) \<Rightarrow> (w2\<lparr>recognition := r\<rparr>, loaded # es @ vs, Normal ())
                      | (vs, Throw e) \<Rightarrow> (w2, loaded # es @ vs, Throw e))))"

section \<open>The vocabulary of the specification, and example inputs\<close>

subsection \<open>The words of the specification\<close>

text \<open>
  A scrollable ancestor, in the words of the specification: an element whose scrollable
  content height exceeds its visible client height by more than 50 pixels. The ancestors
  of a video are its parent, the parent of that, and so on, nearest first; \<open>ancestors p n\<close>
  lists at most \<open>n\<close> of them.
\<close>

definition scrollable :: "page \<Rightarrow> nat \<Rightarrow> bool" where
  "scrollable p q = (scrollHeight (node p q) - clientHeight (node p q) > 50)"

fun ancestors :: "page \<Rightarrow> nat \<Rightarrow> nat option \<Rightarrow> nat list" where
  "ancestors p 0 parent = []"
| "ancestors p (Suc n) None = []"
| "ancestors p (Suc n) (Some q) = q # ancestors p n (parentElement (node p q))"

text \<open>The current video of version 1.3: the result of the visibility scan.\<close>

abbreviation current_video :: "page \<Rightarrow> nat option" where
  "current_video p \<equiv> most_visible p (querySelectorAll p REEL_VIDEO_SELECTOR) (Finite 0) None"

subsection \<open>Example pages\<close>

text \<open>
  \<open>page_feed\<close>: the root, the body, a feed container three viewports high and, in it, one video
  that fills the viewport.
  \<open>page_button\<close>: the same with a button labelled \<^verbatim>\<open>Go to Next reel\<close>. \<open>page_flat\<close>: the feed
  container is not higher than what it shows. \<open>page_svg\<close>: the page of the feed with a
  \<^verbatim>\<open><div role="button">\<close> that holds an icon \<^verbatim>\<open><svg aria-label="Next">\<close>; the icon is the only
  labelled element and is not an \<^verbatim>\<open>HTMLElement\<close>. \<open>elem\<close> makes an HTML element.
\<close>

definition elem :: "string \<Rightarrow> string option \<Rightarrow> nat option \<Rightarrow> int \<Rightarrow> int \<Rightarrow> real \<Rightarrow> real \<Rightarrow> element" where
  "elem name label parent sh ch ry h =
     \<lparr>localName = name, isHTMLElement = True, ariaLabel = label, parentElement = parent,
      scrollHeight = sh,
      clientHeight = ch, boundingClientRect = \<lparr>y = ry, height = h\<rparr>\<rparr>"

definition page_feed :: page where
  "page_feed =
     \<lparr>document = [0, 1, 2, 3], body = Some 1,
      node = (\<lambda>i. if i = 0 then elem ''html'' None None 800 800 0 800
                  else if i = 1 then elem ''body'' None (Some 0) 800 800 0 800
                  else if i = 2 then elem ''div'' None (Some 1) 2400 800 0 800
                  else elem ''video'' None (Some 2) 800 800 0 800),
      innerHeight = 800\<rparr>"


definition page_flat :: page where
  "page_flat =
     \<lparr>document = [0, 1, 2, 3], body = Some 1,
      node = (\<lambda>i. if i = 0 then elem ''html'' None None 800 800 0 800
                  else if i = 1 then elem ''body'' None (Some 0) 800 800 0 800
                  else if i = 2 then elem ''div'' None (Some 1) 800 800 0 800
                  else elem ''video'' None (Some 2) 800 800 0 800),
      innerHeight = 800\<rparr>"


text \<open>
  \<open>page_three\<close>: three videos, the first above the viewport, the second filling it, the third
  inside it. \<open>page_hidden\<close>: a video above the viewport and one of height zero.
\<close>

definition page_three :: page where
  "page_three =
     \<lparr>document = [0, 1, 2, 3, 4, 5], body = Some 1,
      node = (\<lambda>i. if i = 0 then elem ''html'' None None 800 800 0 800
                  else if i = 1 then elem ''body'' None (Some 0) 800 800 0 800
                  else if i = 2 then elem ''div'' None (Some 1) 2400 800 0 800
                  else if i = 3 then elem ''video'' None (Some 2) 800 800 (- 800) 800
                  else if i = 4 then elem ''video'' None (Some 2) 800 800 0 800
                  else elem ''video'' None (Some 2) 400 400 200 400),
      innerHeight = 800\<rparr>"

definition page_hidden :: page where
  "page_hidden =
     \<lparr>document = [0, 1, 2, 3], body = Some 1,
      node = (\<lambda>i. if i = 0 then elem ''html'' None None 800 800 0 800
                  else if i = 1 then elem ''body'' None (Some 0) 800 800 0 800
                  else if i = 2 then elem ''video'' None (Some 1) 800 800 (- 900) 800
                  else elem ''video'' None (Some 1) 0 0 100 0),
      innerHeight = 800\<rparr>"

text \<open>
  \<open>page_partial\<close>: two videos of the height of the viewport, the first with its lower eighth
  in the viewport, the second with its upper seven eighths. \<open>page_blank\<close>: no video.
\<close>

definition page_partial :: page where
  "page_partial =
     \<lparr>document = [0, 1, 2, 3, 4], body = Some 1,
      node = (\<lambda>i. if i = 0 then elem ''html'' None None 800 800 0 800
                  else if i = 1 then elem ''body'' None (Some 0) 800 800 0 800
                  else if i = 2 then elem ''div'' None (Some 1) 2400 800 0 800
                  else if i = 3 then elem ''video'' None (Some 2) 800 800 (- 700) 800
                  else elem ''video'' None (Some 2) 800 800 100 800),
      innerHeight = 800\<rparr>"

definition page_blank :: page where
  "page_blank =
     \<lparr>document = [0, 1], body = Some 1,
      node = (\<lambda>i. if i = 0 then elem ''html'' None None 800 800 0 800
                  else elem ''body'' None (Some 0) 800 800 0 800),
      innerHeight = 800\<rparr>"

text \<open>\<open>page_thin\<close>: a video of height zero before a video half inside the viewport.\<close>

definition page_thin :: page where
  "page_thin =
     \<lparr>document = [0, 1, 2, 3], body = Some 1,
      node = (\<lambda>i. if i = 0 then elem ''html'' None None 800 800 0 800
                  else if i = 1 then elem ''body'' None (Some 0) 800 800 0 800
                  else if i = 2 then elem ''video'' None (Some 1) 0 0 100 0
                  else elem ''video'' None (Some 1) 800 800 400 800),
      innerHeight = 800\<rparr>"

text \<open>
  The videos that a call of \<open>handleDomChanges\<close> passes to \<open>addListenerToVideo\<close>, in order
  and with repetitions: an inserted video itself, or the videos below an inserted element.
\<close>

definition node_targets :: "dom_node \<Rightarrow> nat list" where
  "node_targets n =
     (case n of
        ElementNode i name kids \<Rightarrow> if name = ''video'' then [i] else node_querySelectorAll n
      | OtherNode \<Rightarrow> [])"

definition wired_by :: "mutation list \<Rightarrow> nat list" where
  "wired_by mutationsList =
     concat (map (\<lambda>mutation.
       if mtype mutation = ''childList'' \<and> length (addedNodes mutation) > 0
       then concat (map node_targets (addedNodes mutation)) else []) mutationsList)"

text \<open>
  \<open>world0\<close>: no video met yet. \<open>page_two\<close>: two feed containers, each with one video; the
  first video is above the viewport, the second fills it. \<open>overlapping\<close>: two mutation
  records for one insertion, the container with its video and the video again.
\<close>

definition world0 :: world where
  "world0 =
     \<lparr>video = (\<lambda>_. \<lparr>autoScrollListenerAttached = None, ended_listeners = []\<rparr>),
      allocated = 0, observers = [], recognition = None\<rparr>"

definition page_two :: page where
  "page_two =
     \<lparr>document = [0, 1, 2, 3, 4, 5], body = Some 1,
      node = (\<lambda>i. if i = 0 then elem ''html'' None None 800 800 0 800
                  else if i = 1 then elem ''body'' None (Some 0) 800 800 0 800
                  else if i = 2 then elem ''div'' None (Some 1) 1800 600 (- 800) 600
                  else if i = 3 then elem ''video'' None (Some 2) 800 800 (- 800) 800
                  else if i = 4 then elem ''div'' None (Some 1) 2400 800 0 800
                  else elem ''video'' None (Some 4) 800 800 0 800),
      innerHeight = 800\<rparr>"

definition overlapping :: "mutation list" where
  "overlapping =
     [\<lparr>mtype = ''childList'',
       addedNodes = [ElementNode 6 ''div'' [OtherNode, ElementNode 7 ''video'' []]]\<rparr>,
      \<lparr>mtype = ''childList'', addedNodes = [ElementNode 7 ''video'' [], OtherNode]\<rparr>]"

text \<open>
  The events of the recognition session, each with the handler that the script assigned
  for it. \<open>failure\<close> is what the platform answers to a call of \<^verbatim>\<open>recognition.start()\<close> made while
  the event is handled. \<open>starts\<close> counts the calls of \<^verbatim>\<open>recognition.start()\<close> among some effects.
\<close>

datatype recognition_event = ResultEvent "string list list" | EndEvent | ErrorEvent string

fun handle_event :: "page \<Rightarrow> string option \<Rightarrow> recognition_event \<Rightarrow> effect list \<times> unit completion" where
  "handle_event p failure (ResultEvent results) = onresult p results"
| "handle_event p failure EndEvent = onend failure"
| "handle_event p failure (ErrorEvent error) = onerror error"

definition starts :: "effect list \<Rightarrow> nat" where
  "starts es = length (filter (\<lambda>e. e = RecognitionStart) es)"

text \<open>
  \<open>no_speech\<close>: a platform without recognition; \<open>webkit_speech\<close>: one that exposes the prefixed
  constructor only.
\<close>

definition no_speech :: window where
  "no_speech = \<lparr>SpeechRecognition = None, webkitSpeechRecognition = None\<rparr>"

definition webkit_speech :: window where
  "webkit_speech = \<lparr>SpeechRecognition = None, webkitSpeechRecognition = Some ''webkitSpeechRecognition''\<rparr>"

section \<open>Properties\<close>

subsection \<open>The walk up the ancestors finds the nearest scrollable one\<close>

lemma find_scrollable_eq:
  "find_scrollable p i parent = find (scrollable p) (ancestors p (15 - i) parent)"
proof (induction p i parent rule: find_scrollable.induct)
  case (1 p i parent)
  show ?case
  proof (cases "i < 15")
    case False
    then show ?thesis by (simp add: find_scrollable.simps [of p i parent])
  next
    case True
    then obtain n where n: "15 - i = Suc n" "15 - (i + 1) = n"
      by (metis Suc_diff_Suc Suc_eq_plus1)
    show ?thesis
    proof (cases parent)
      case None
      then show ?thesis using True n by (simp add: find_scrollable.simps [of p i None])
    next
      case (Some q)
      show ?thesis
      proof (cases "scrollHeight (node p q) > clientHeight (node p q) + 50")
        case yes: True
        then have "scrollable p q" by (simp add: scrollable_def)
        then show ?thesis
          using True Some yes n by (simp add: find_scrollable.simps [of p i "Some q"])
      next
        case no: False
        then have "\<not> scrollable p q" by (simp add: scrollable_def)
        moreover have "find_scrollable p (i + 1) (parentElement (node p q)) =
            find (scrollable p) (ancestors p n (parentElement (node p q)))"
          using "1.IH" [OF True Some no] n by simp
        ultimately show ?thesis
          using True Some no n by (simp add: find_scrollable.simps [of p i "Some q"])
      qed
    qed
  qed
qed

lemma querySelector_None:
  "querySelector p sel = None \<longleftrightarrow> (\<forall>i\<in>set (document p). \<not> sel (node p i))"
  by (auto simp: querySelector_def find_None_iff)


subsection \<open>The three methods of the advancement\<close>

lemma actions_simps:
  "actions [] = []"
  "actions (Console l m a # es) = actions es"
  "actions (Click i # es) = Click i # actions es"
  "actions (ElementScrollBy c t lft b # es) = ElementScrollBy c t lft b # actions es"
  "actions (WindowScrollBy x yy # es) = WindowScrollBy x yy # actions es"
  "actions (RecognitionStart # es) = RecognitionStart # actions es"
  by (simp_all add: actions_def)

lemma actions_scroll_container:
  "actions (scroll_container p c) = [ElementScrollBy c (clientHeight (node p c)) 0 ''smooth'']"
  by (simp add: scroll_container_def Let_def actions_simps)

lemma nearest_index:
  assumes "k < length as" "scrollable p (as ! k)" "\<forall>j<k. \<not> scrollable p (as ! j)"
  shows "find (scrollable p) as = Some (as ! k)"
  using assms by (auto simp: find_Some_iff)

lemmas scroll_defs =
  scrollToNextReel_v13_def scrollToNextReel_v12_def seq_def console_def click_def







text \<open>
  Claim C3. When no element matches the selector of the button and the \<open>k\<close>-th of the first 15
  ancestors of the current video is scrollable while no nearer one is, the advancement
  requests a smooth scroll of that ancestor by its own client height and nothing else, and
  returns: the window is not scrolled. The current video is the result of the scan in
  version 1.3 and the target of the event in version 1.2.
\<close>

theorem container_scrolled:
  assumes "\<forall>i\<in>set (document p). \<not> NEXT_BUTTON_SELECTOR (node p i)"
    and "k < length (ancestors p 15 (parentElement (node p v)))"
    and "c = ancestors p 15 (parentElement (node p v)) ! k"
    and "scrollable p c"
    and "\<forall>j<k. \<not> scrollable p (ancestors p 15 (parentElement (node p v)) ! j)"
  shows "(current_video p = Some v \<longrightarrow>
           actions (fst (scrollToNextReel_v13 p)) =
             [ElementScrollBy c (clientHeight (node p c)) 0 ''smooth''] \<and>
           snd (scrollToNextReel_v13 p) = Normal ()) \<and>
         actions (fst (scrollToNextReel_v12 p (Some v))) =
           [ElementScrollBy c (clientHeight (node p c)) 0 ''smooth''] \<and>
         snd (scrollToNextReel_v12 p (Some v)) = Normal ()"
proof -
  have q: "querySelector p NEXT_BUTTON_SELECTOR = None"
    using assms(1) by (simp add: querySelector_None)
  have "find (scrollable p) (ancestors p 15 (parentElement (node p v))) = Some c"
    using assms(2-5) nearest_index by blast
  then have f: "find_scrollable p 0 (parentElement (node p v)) = Some c"
    by (simp add: find_scrollable_eq)
  show ?thesis
    using q f
    by (simp add: scroll_defs actions_simps actions_scroll_container)
qed

lemma page_feed_ancestors:
  "ancestors page_feed 15 (parentElement (node page_feed 3)) = [2, 1, 0]"
  by (simp add: page_feed_def elem_def eval_nat_numeral)

lemma page_feed_current: "current_video page_feed = Some 3"
  by (simp add: page_feed_def elem_def querySelectorAll_def REEL_VIDEO_SELECTOR_def
      visibility_def visibleHeight_def js_div_def top_rect_def bottom_rect_def)

theorem container_scrolled_witness:
  "current_video page_feed = Some 3 \<and>
   actions (fst (scrollToNextReel_v13 page_feed)) = [ElementScrollBy 2 800 0 ''smooth''] \<and>
   snd (scrollToNextReel_v13 page_feed) = Normal () \<and>
   actions (fst (scrollToNextReel_v12 page_feed (Some 3))) = [ElementScrollBy 2 800 0 ''smooth''] \<and>
   snd (scrollToNextReel_v12 page_feed (Some 3)) = Normal ()"
proof -
  have 1: "\<forall>i\<in>set (document page_feed). \<not> NEXT_BUTTON_SELECTOR (node page_feed i)"
    by (simp add: page_feed_def elem_def NEXT_BUTTON_SELECTOR_def)
  have 2: "0 < length (ancestors page_feed 15 (parentElement (node page_feed 3)))"
    by (simp add: page_feed_ancestors)
  have 3: "2 = ancestors page_feed 15 (parentElement (node page_feed 3)) ! 0"
    by (simp add: page_feed_ancestors)
  have 4: "scrollable page_feed 2"
    by (simp add: scrollable_def page_feed_def elem_def)
  have 5: "\<forall>j<0. \<not> scrollable page_feed (ancestors page_feed 15 (parentElement (node page_feed 3)) ! j)"
    by simp
  have 6: "clientHeight (node page_feed 2) = 800"
    by (simp add: page_feed_def elem_def)
  show ?thesis
    using container_scrolled [OF 1 2 3 4 5] page_feed_current 6 by simp
qed

subsection \<open>The visibility scan\<close>

lemma js_gt_irrefl: "\<not> js_gt a a"
  by (cases a) simp_all

lemma js_gt_trans: "js_gt a b \<Longrightarrow> js_gt b c \<Longrightarrow> js_gt a c"
  by (cases a; cases b; cases c) simp_all

lemma js_gt_asym: "js_gt a b \<Longrightarrow> \<not> js_gt b a"
  by (cases a; cases b) simp_all

lemma js_gt_raise: "js_gt x m \<Longrightarrow> \<not> js_gt u m \<Longrightarrow> \<not> js_gt u x"
  by (cases x; cases m; cases u) simp_all

lemma js_gt_NaN: "\<not> js_gt NaN m"
  by simp

lemma most_visible_cases:
  "(most_visible p vs m cur = cur \<and> (\<forall>u\<in>set vs. \<not> js_gt (visibility p u) m)) \<or>
   (\<exists>i<length vs. most_visible p vs m cur = Some (vs ! i) \<and>
      js_gt (visibility p (vs ! i)) m \<and>
      (\<forall>u\<in>set vs. \<not> js_gt (visibility p u) (visibility p (vs ! i))) \<and>
      (\<forall>u\<in>set (take i vs). visibility p u \<noteq> visibility p (vs ! i)))"
proof (induction vs arbitrary: m cur)
  case Nil
  show ?case by simp
next
  case (Cons x xs)
  let ?v = "visibility p"
  show ?case
  proof (cases "js_gt (?v x) m")
    case True
    then have step: "most_visible p (x # xs) m cur = most_visible p xs (?v x) (Some x)"
      by simp
    from Cons.IH [of "?v x" "Some x"]
    consider
      (stay) "most_visible p xs (?v x) (Some x) = Some x" "\<forall>u\<in>set xs. \<not> js_gt (?v u) (?v x)"
    | (later) i where "i < length xs" "most_visible p xs (?v x) (Some x) = Some (xs ! i)"
        "js_gt (?v (xs ! i)) (?v x)"
        "\<forall>u\<in>set xs. \<not> js_gt (?v u) (?v (xs ! i))"
        "\<forall>u\<in>set (take i xs). ?v u \<noteq> ?v (xs ! i)"
      by blast
    then show ?thesis
    proof cases
      case stay
      have "\<forall>u\<in>set (x # xs). \<not> js_gt (?v u) (?v x)"
        using stay(2) js_gt_irrefl by simp
      then have "0 < length (x # xs) \<and> most_visible p (x # xs) m cur = Some ((x # xs) ! 0) \<and>
          js_gt (?v ((x # xs) ! 0)) m \<and>
          (\<forall>u\<in>set (x # xs). \<not> js_gt (?v u) (?v ((x # xs) ! 0))) \<and>
          (\<forall>u\<in>set (take 0 (x # xs)). ?v u \<noteq> ?v ((x # xs) ! 0))"
        using step stay(1) True by simp
      then show ?thesis by blast
    next
      case later
      have a: "js_gt (?v (xs ! i)) m"
        using later(3) True js_gt_trans by blast
      have "\<not> js_gt (?v x) (?v (xs ! i))"
        using later(3) js_gt_asym by blast
      then have b: "\<forall>u\<in>set (x # xs). \<not> js_gt (?v u) (?v (xs ! i))"
        using later(4) by simp
      have "?v x \<noteq> ?v (xs ! i)"
        using later(3) js_gt_irrefl by metis
      then have c: "\<forall>u\<in>set (take (Suc i) (x # xs)). ?v u \<noteq> ?v (xs ! i)"
        using later(5) by simp
      have d: "most_visible p (x # xs) m cur = Some ((x # xs) ! Suc i)"
        using step later(2) by simp
      have "Suc i < length (x # xs) \<and> most_visible p (x # xs) m cur = Some ((x # xs) ! Suc i) \<and>
          js_gt (?v ((x # xs) ! Suc i)) m \<and>
          (\<forall>u\<in>set (x # xs). \<not> js_gt (?v u) (?v ((x # xs) ! Suc i))) \<and>
          (\<forall>u\<in>set (take (Suc i) (x # xs)). ?v u \<noteq> ?v ((x # xs) ! Suc i))"
        using later(1) a b c d by (simp only: nth_Cons_Suc length_Cons Suc_less_eq simp_thms)
      then show ?thesis by blast
    qed
  next
    case False
    then have step: "most_visible p (x # xs) m cur = most_visible p xs m cur"
      by simp
    from Cons.IH [of m cur]
    consider
      (stay) "most_visible p xs m cur = cur" "\<forall>u\<in>set xs. \<not> js_gt (?v u) m"
    | (later) i where "i < length xs" "most_visible p xs m cur = Some (xs ! i)"
        "js_gt (?v (xs ! i)) m"
        "\<forall>u\<in>set xs. \<not> js_gt (?v u) (?v (xs ! i))"
        "\<forall>u\<in>set (take i xs). ?v u \<noteq> ?v (xs ! i)"
      by blast
    then show ?thesis
    proof cases
      case stay
      then show ?thesis using step False by simp
    next
      case later
      have "\<not> js_gt (?v x) (?v (xs ! i))"
        using later(3) False js_gt_raise by blast
      then have b: "\<forall>u\<in>set (x # xs). \<not> js_gt (?v u) (?v (xs ! i))"
        using later(4) by simp
      have "?v x \<noteq> ?v (xs ! i)"
        using later(3) False by metis
      then have c: "\<forall>u\<in>set (take (Suc i) (x # xs)). ?v u \<noteq> ?v (xs ! i)"
        using later(5) by simp
      have d: "most_visible p (x # xs) m cur = Some ((x # xs) ! Suc i)"
        using step later(2) by simp
      have "Suc i < length (x # xs) \<and> most_visible p (x # xs) m cur = Some ((x # xs) ! Suc i) \<and>
          js_gt (?v ((x # xs) ! Suc i)) m \<and>
          (\<forall>u\<in>set (x # xs). \<not> js_gt (?v u) (?v ((x # xs) ! Suc i))) \<and>
          (\<forall>u\<in>set (take (Suc i) (x # xs)). ?v u \<noteq> ?v ((x # xs) ! Suc i))"
        using later(1,3) b c d by (simp only: nth_Cons_Suc length_Cons Suc_less_eq simp_thms)
      then show ?thesis by blast
    qed
  qed
qed

lemma most_visible_none:
  "\<forall>u\<in>set vs. \<not> js_gt (visibility p u) m \<Longrightarrow> most_visible p vs m cur = cur"
  by (induction vs arbitrary: m cur) simp_all

lemma visibleHeight_zero_height:
  "height (boundingClientRect (node p v)) = 0 \<Longrightarrow> visibleHeight p v = 0"
  by (simp add: visibleHeight_def top_rect_def bottom_rect_def Let_def)

lemma visibility_invisible:
  "visibleHeight p v = 0 \<Longrightarrow> \<not> js_gt (visibility p v) (Finite 0)"
  by (simp add: visibility_def js_div_def)

lemmas page_eval =
  elem_def querySelectorAll_def querySelector_def REEL_VIDEO_SELECTOR_def NEXT_BUTTON_SELECTOR_def
  visibility_def visibleHeight_def js_div_def top_rect_def bottom_rect_def

text \<open>
  The visible height of a video is the length of the part of its vertical extent that lies
  in the viewport, and zero when no part does.
\<close>

lemma visible_part:
  "\<exists>lo hi.
      {top_rect (boundingClientRect (node p u)) .. bottom_rect (boundingClientRect (node p u))} \<inter>
        {0 .. real_of_int (innerHeight p)} = {lo .. hi} \<and>
      visibleHeight p u = (if lo \<le> hi then hi - lo else 0)"
proof -
  define lo where "lo = max (top_rect (boundingClientRect (node p u))) 0"
  define hi where "hi = min (bottom_rect (boundingClientRect (node p u))) (real_of_int (innerHeight p))"
  have "{top_rect (boundingClientRect (node p u)) .. bottom_rect (boundingClientRect (node p u))} \<inter>
        {0 .. real_of_int (innerHeight p)} = {lo .. hi}"
    by (simp add: lo_def hi_def)
  moreover have "visibleHeight p u = max 0 (hi - lo)"
    by (simp add: visibleHeight_def Let_def lo_def hi_def)
  then have "visibleHeight p u = (if lo \<le> hi then hi - lo else 0)"
    by (simp add: max_def)
  ultimately show ?thesis by blast
qed

text \<open>
  Claim C5. The video that the scan of version 1.3 selects has a visibility above zero, no video
  has a greater one, and no video before it in document order has an equal one (the first
  seen wins). Without videos, or when the visible height of every video is zero, the scan
  selects none, and the advancement, once the button is not found, goes to the scroll of the
  window by one viewport height and returns. As soon as one video has a visibility above
  zero, the scan selects a video. The visibility of a video of non-zero height is its
  visible height divided by its height, and its visible height is the length of the part of
  its vertical extent, from top to bottom, that lies in the viewport, from 0 to the inner
  height of the window (zero when no part does); top and bottom are \<open>y\<close> and \<open>y + height\<close>
  for a rectangle of non-negative height.
\<close>

theorem visibility_scan:
  "(current_video p = Some v \<longrightarrow>
      (\<exists>i<length (querySelectorAll p REEL_VIDEO_SELECTOR).
          querySelectorAll p REEL_VIDEO_SELECTOR ! i = v \<and>
          js_gt (visibility p v) (Finite 0) \<and>
          (\<forall>u\<in>set (querySelectorAll p REEL_VIDEO_SELECTOR). \<not> js_gt (visibility p u) (visibility p v)) \<and>
          (\<forall>u\<in>set (take i (querySelectorAll p REEL_VIDEO_SELECTOR)). visibility p u \<noteq> visibility p v))) \<and>
   (querySelectorAll p REEL_VIDEO_SELECTOR = [] \<longrightarrow> current_video p = None) \<and>
   ((\<forall>u\<in>set (querySelectorAll p REEL_VIDEO_SELECTOR). visibleHeight p u = 0) \<longrightarrow>
      current_video p = None) \<and>
   (current_video p = None \<longrightarrow> (\<forall>i\<in>set (document p). \<not> NEXT_BUTTON_SELECTOR (node p i)) \<longrightarrow>
      actions (fst (scrollToNextReel_v13 p)) = [WindowScrollBy 0 (innerHeight p)] \<and>
      snd (scrollToNextReel_v13 p) = Normal ()) \<and>
   (height (boundingClientRect (node p u)) \<noteq> 0 \<longrightarrow>
      visibility p u = Finite (visibleHeight p u / height (boundingClientRect (node p u)))) \<and>
   (x \<in> set (querySelectorAll p REEL_VIDEO_SELECTOR) \<and> js_gt (visibility p x) (Finite 0) \<longrightarrow>
      (\<exists>s. current_video p = Some s)) \<and>
   (\<exists>lo hi.
      {top_rect (boundingClientRect (node p u)) .. bottom_rect (boundingClientRect (node p u))} \<inter>
        {0 .. real_of_int (innerHeight p)} = {lo .. hi} \<and>
      visibleHeight p u = (if lo \<le> hi then hi - lo else 0)) \<and>
   (0 \<le> height (boundingClientRect (node p u)) \<longrightarrow>
      top_rect (boundingClientRect (node p u)) = y (boundingClientRect (node p u)) \<and>
      bottom_rect (boundingClientRect (node p u)) =
        y (boundingClientRect (node p u)) + height (boundingClientRect (node p u)))"
proof (intro conjI impI)
  assume cur: "current_video p = Some v"
  let ?vs = "querySelectorAll p REEL_VIDEO_SELECTOR"
  from most_visible_cases [of p ?vs "Finite 0" None] cur
  obtain i where "i < length ?vs" "Some v = Some (?vs ! i)"
    "js_gt (visibility p (?vs ! i)) (Finite 0)"
    "\<forall>u\<in>set ?vs. \<not> js_gt (visibility p u) (visibility p (?vs ! i))"
    "\<forall>u\<in>set (take i ?vs). visibility p u \<noteq> visibility p (?vs ! i)"
    by auto
  then show "\<exists>i<length ?vs. ?vs ! i = v \<and> js_gt (visibility p v) (Finite 0) \<and>
      (\<forall>u\<in>set ?vs. \<not> js_gt (visibility p u) (visibility p v)) \<and>
      (\<forall>u\<in>set (take i ?vs). visibility p u \<noteq> visibility p v)"
    by (intro exI [of _ i]) simp
next
  assume "querySelectorAll p REEL_VIDEO_SELECTOR = []"
  then show "current_video p = None" by simp
next
  assume "\<forall>u\<in>set (querySelectorAll p REEL_VIDEO_SELECTOR). visibleHeight p u = 0"
  then have "\<forall>u\<in>set (querySelectorAll p REEL_VIDEO_SELECTOR). \<not> js_gt (visibility p u) (Finite 0)"
    using visibility_invisible by blast
  then show "current_video p = None"
    by (rule most_visible_none)
next
  assume n: "current_video p = None" "\<forall>i\<in>set (document p). \<not> NEXT_BUTTON_SELECTOR (node p i)"
  then show "actions (fst (scrollToNextReel_v13 p)) = [WindowScrollBy 0 (innerHeight p)]"
    by (simp add: scroll_defs querySelector_None [symmetric] actions_simps)
  from n show "snd (scrollToNextReel_v13 p) = Normal ()"
    by (simp add: scroll_defs querySelector_None [symmetric])
next
  assume "height (boundingClientRect (node p u)) \<noteq> 0"
  then show "visibility p u = Finite (visibleHeight p u / height (boundingClientRect (node p u)))"
    by (simp add: visibility_def js_div_def)
next
  assume "x \<in> set (querySelectorAll p REEL_VIDEO_SELECTOR) \<and> js_gt (visibility p x) (Finite 0)"
  then show "\<exists>s. current_video p = Some s"
    using most_visible_cases [of p "querySelectorAll p REEL_VIDEO_SELECTOR" "Finite 0" None]
    by blast
next
  show "\<exists>lo hi.
      {top_rect (boundingClientRect (node p u)) .. bottom_rect (boundingClientRect (node p u))} \<inter>
        {0 .. real_of_int (innerHeight p)} = {lo .. hi} \<and>
      visibleHeight p u = (if lo \<le> hi then hi - lo else 0)"
    by (rule visible_part)
next
  assume "0 \<le> height (boundingClientRect (node p u))"
  then show "top_rect (boundingClientRect (node p u)) = y (boundingClientRect (node p u))"
    and "bottom_rect (boundingClientRect (node p u)) =
      y (boundingClientRect (node p u)) + height (boundingClientRect (node p u))"
    by (simp_all add: top_rect_def bottom_rect_def)
qed

lemma page_three_videos: "querySelectorAll page_three REEL_VIDEO_SELECTOR = [3, 4, 5]"
  by (simp add: page_three_def page_eval)

lemma page_three_visibility:
  "visibility page_three 3 = Finite 0" "visibility page_three 4 = Finite 1"
  "visibility page_three 5 = Finite 1"
  by (simp_all add: page_three_def page_eval)

lemma page_three_current: "current_video page_three = Some 4"
  by (simp add: page_three_videos page_three_visibility)

lemma page_hidden_videos: "querySelectorAll page_hidden REEL_VIDEO_SELECTOR = [2, 3]"
  by (simp add: page_hidden_def page_eval)

lemma page_hidden_invisible:
  "\<forall>u\<in>set (querySelectorAll page_hidden REEL_VIDEO_SELECTOR). visibleHeight page_hidden u = 0"
  by (simp add: page_hidden_videos) (simp add: page_hidden_def page_eval)

lemma page_hidden_no_button:
  "\<forall>i\<in>set (document page_hidden). \<not> NEXT_BUTTON_SELECTOR (node page_hidden i)"
  by (simp add: page_hidden_def page_eval)

lemma page_partial_facts:
  "querySelectorAll page_partial REEL_VIDEO_SELECTOR = [3, 4]"
  "visibleHeight page_partial 3 = 100" "visibleHeight page_partial 4 = 700"
  "visibility page_partial 3 = Finite (1 / 8)" "visibility page_partial 4 = Finite (7 / 8)"
  by (simp_all add: page_partial_def page_eval)

lemma page_partial_current: "current_video page_partial = Some 4"
  by (simp add: page_partial_facts)

lemma page_blank_videos: "querySelectorAll page_blank REEL_VIDEO_SELECTOR = []"
  by (simp add: page_blank_def page_eval)

theorem visibility_scan_witness:
  "current_video page_three = Some 4 \<and>
   querySelectorAll page_three REEL_VIDEO_SELECTOR = [3, 4, 5] \<and>
   visibility page_three 5 = visibility page_three 4 \<and>
   visibility page_three 4 = Finite (visibleHeight page_three 4 / 800) \<and>
   (\<exists>i<length (querySelectorAll page_three REEL_VIDEO_SELECTOR).
      querySelectorAll page_three REEL_VIDEO_SELECTOR ! i = 4 \<and>
      js_gt (visibility page_three 4) (Finite 0) \<and>
      (\<forall>u\<in>set (querySelectorAll page_three REEL_VIDEO_SELECTOR).
         \<not> js_gt (visibility page_three u) (visibility page_three 4)) \<and>
      (\<forall>u\<in>set (take i (querySelectorAll page_three REEL_VIDEO_SELECTOR)).
         visibility page_three u \<noteq> visibility page_three 4)) \<and>
   querySelectorAll page_hidden REEL_VIDEO_SELECTOR = [2, 3] \<and>
   visibleHeight page_hidden 2 = 0 \<and> visibleHeight page_hidden 3 = 0 \<and>
   current_video page_hidden = None \<and>
   actions (fst (scrollToNextReel_v13 page_hidden)) = [WindowScrollBy 0 800] \<and>
   snd (scrollToNextReel_v13 page_hidden) = Normal () \<and>
   querySelectorAll page_blank REEL_VIDEO_SELECTOR = [] \<and> current_video page_blank = None \<and>
   querySelectorAll page_partial REEL_VIDEO_SELECTOR = [3, 4] \<and>
   visibleHeight page_partial 3 = 100 \<and> visibleHeight page_partial 4 = 700 \<and>
   js_gt (visibility page_partial 4) (Finite 0) \<and>
   (\<exists>s. current_video page_partial = Some s) \<and> current_video page_partial = Some 4 \<and>
   top_rect (boundingClientRect (node page_partial 3)) = - 700 \<and>
   bottom_rect (boundingClientRect (node page_partial 3)) = 100 \<and>
   (\<exists>lo hi. {- 700 .. 100} \<inter> {0 .. real_of_int (innerHeight page_partial)} = {lo .. hi} \<and>
      visibleHeight page_partial 3 = (if lo \<le> hi then hi - lo else 0))"
proof -
  have a: "current_video page_hidden = None"
    using visibility_scan [of page_hidden 0] page_hidden_invisible by blast
  have b: "actions (fst (scrollToNextReel_v13 page_hidden)) = [WindowScrollBy 0 (innerHeight page_hidden)] \<and>
      snd (scrollToNextReel_v13 page_hidden) = Normal ()"
    using visibility_scan [of page_hidden 0] a page_hidden_no_button by blast
  have c: "innerHeight page_hidden = 800"
    by (simp add: page_hidden_def)
  have d: "\<exists>i<length (querySelectorAll page_three REEL_VIDEO_SELECTOR).
      querySelectorAll page_three REEL_VIDEO_SELECTOR ! i = 4 \<and>
      js_gt (visibility page_three 4) (Finite 0) \<and>
      (\<forall>u\<in>set (querySelectorAll page_three REEL_VIDEO_SELECTOR).
         \<not> js_gt (visibility page_three u) (visibility page_three 4)) \<and>
      (\<forall>u\<in>set (take i (querySelectorAll page_three REEL_VIDEO_SELECTOR)).
         visibility page_three u \<noteq> visibility page_three 4)"
    using visibility_scan [of page_three 4] page_three_current by blast
  have e: "visibility page_three 5 = visibility page_three 4"
    by (simp add: page_three_visibility)
  have h: "height (boundingClientRect (node page_three 4)) = 800"
    by (simp add: page_three_def elem_def)
  have g: "visibility page_three 4 = Finite (visibleHeight page_three 4 / 800)"
    using visibility_scan [of page_three 4 4] h by simp
  have f: "visibleHeight page_hidden 2 = 0" "visibleHeight page_hidden 3 = 0"
    using page_hidden_invisible by (simp_all add: page_hidden_videos)
  have k: "current_video page_blank = None"
    using visibility_scan [of page_blank 0] page_blank_videos by blast
  have m: "4 \<in> set (querySelectorAll page_partial REEL_VIDEO_SELECTOR) \<and>
      js_gt (visibility page_partial 4) (Finite 0)"
    by (simp add: page_partial_facts)
  have n: "\<exists>s. current_video page_partial = Some s"
    using visibility_scan [of page_partial 0 3 4] m by blast
  have r: "0 \<le> height (boundingClientRect (node page_partial 3))"
    "y (boundingClientRect (node page_partial 3)) = - 700"
    "height (boundingClientRect (node page_partial 3)) = 800"
    by (simp_all add: page_partial_def elem_def)
  have tb: "top_rect (boundingClientRect (node page_partial 3)) = - 700"
    "bottom_rect (boundingClientRect (node page_partial 3)) = 100"
    using visibility_scan [of page_partial 0 3 4] r by simp_all
  have o: "\<exists>lo hi. {- 700 .. 100} \<inter> {0 .. real_of_int (innerHeight page_partial)} = {lo .. hi} \<and>
      visibleHeight page_partial 3 = (if lo \<le> hi then hi - lo else 0)"
    using visibility_scan [of page_partial 0 3 4, unfolded tb] by blast
  from b c have b': "actions (fst (scrollToNextReel_v13 page_hidden)) = [WindowScrollBy 0 800]"
    "snd (scrollToNextReel_v13 page_hidden) = Normal ()"
    by simp_all
  have j: "js_gt (visibility page_partial 4) (Finite 0)"
    using m by blast
  show ?thesis
    using page_three_current page_three_videos e g d page_hidden_videos f a b' page_blank_videos k
      page_partial_facts(1,2,3) j n page_partial_current tb o
    by (simp only: simp_thms)
qed

text \<open>
  Claim C10. A video whose bounding rectangle has height zero has visible height zero; its
  visibility is the quotient of zero by zero, which is greater than no running maximum, so
  the scan never makes it the current video.
\<close>

theorem zero_height_never_selected:
  assumes "height (boundingClientRect (node p v)) = 0"
  shows "visibleHeight p v = 0 \<and> visibility p v = NaN \<and> \<not> js_gt (visibility p v) maxVisibility \<and>
    (currentVideo \<noteq> Some v \<longrightarrow> most_visible p videos maxVisibility currentVideo \<noteq> Some v) \<and>
    current_video p \<noteq> Some v"
proof -
  have vh: "visibleHeight p v = 0"
    using assms by (rule visibleHeight_zero_height)
  then have nan: "visibility p v = NaN"
    using assms by (simp add: visibility_def js_div_def)
  have never: "most_visible p vs m cur \<noteq> Some v" if "cur \<noteq> Some v" for vs m cur
  proof
    assume sel: "most_visible p vs m cur = Some v"
    from most_visible_cases [of p vs m cur] that sel
    obtain i where "Some v = Some (vs ! i)" "js_gt (visibility p (vs ! i)) m"
      by auto
    then show False using nan by simp
  qed
  show ?thesis
    using vh nan never by simp
qed

theorem zero_height_never_selected_witness:
  "height (boundingClientRect (node page_thin 2)) = 0 \<and> visibleHeight page_thin 2 = 0 \<and>
   visibility page_thin 2 = NaN \<and> \<not> js_gt (visibility page_thin 2) (Finite 0) \<and>
   most_visible page_thin [2, 3] (Finite 0) None \<noteq> Some 2 \<and>
   current_video page_thin \<noteq> Some 2 \<and> current_video page_thin = Some 3"
proof -
  have h: "height (boundingClientRect (node page_thin 2)) = 0"
    by (simp add: page_thin_def elem_def)
  have c: "current_video page_thin = Some 3"
    by (simp add: page_thin_def page_eval)
  show ?thesis
    using zero_height_never_selected [OF h, of "Finite 0" None "[2, 3]"] h c by simp
qed

subsection \<open>When no ancestor is scrollable\<close>

lemma fallback_v12:
  assumes "\<forall>i\<in>set (document p). \<not> NEXT_BUTTON_SELECTOR (node p i)"
    and "find (scrollable p) (ancestors p 15 (parentElement (node p v))) = None"
  shows "actions (fst (scrollToNextReel_v12 p (Some v))) = [WindowScrollBy 0 (innerHeight p)]"
  using assms
  by (simp add: scroll_defs querySelector_None [symmetric] find_scrollable_eq actions_simps)

lemma no_fallback_v13:
  assumes "\<forall>i\<in>set (document p). \<not> NEXT_BUTTON_SELECTOR (node p i)"
    and "current_video p = Some v"
    and "find (scrollable p) (ancestors p 15 (parentElement (node p v))) = None"
  shows "actions (fst (scrollToNextReel_v13 p)) = []"
  using assms
  by (simp add: scroll_defs querySelector_None [symmetric] find_scrollable_eq actions_simps)

text \<open>
  Claim C1, at \<open>page_flat\<close>: no element is labelled \<^verbatim>\<open>Next\<close>, the video fills the viewport and none
  of its three ancestors is scrollable. Version 1.3 logs the failure of the second method and
  does nothing else; version 1.2, on the same page, scrolls the window by one viewport height.
\<close>

theorem window_fallback_missing_v13:
  "querySelector page_flat NEXT_BUTTON_SELECTOR = None \<and>
   querySelectorAll page_flat REEL_VIDEO_SELECTOR = [3] \<and>
   current_video page_flat = Some 3 \<and>
   ancestors page_flat 15 (parentElement (node page_flat 3)) = [2, 1, 0] \<and>
   \<not> scrollable page_flat 2 \<and> \<not> scrollable page_flat 1 \<and> \<not> scrollable page_flat 0 \<and>
   find_scrollable page_flat 0 (parentElement (node page_flat 3)) = None \<and>
   scrollToNextReel_v13 page_flat =
     ([Console Log ''Scroll triggered. Attempting to find next reel.'' [],
       Console Warn ''Could not find 'Next' button. Trying Method 2: Find and scroll container.'' [],
       Console Error ''Method 2 Failed: Could not find a scrollable container for the visible video.'' []],
      Normal ()) \<and>
   actions (fst (scrollToNextReel_v13 page_flat)) = [] \<and>
   actions (fst (scrollToNextReel_v12 page_flat (Some 3))) = [WindowScrollBy 0 800]"
proof -
  have q: "querySelector page_flat NEXT_BUTTON_SELECTOR = None"
    by (simp add: page_flat_def page_eval)
  have vs: "querySelectorAll page_flat REEL_VIDEO_SELECTOR = [3]"
    by (simp add: page_flat_def page_eval)
  have cur: "current_video page_flat = Some 3"
    by (simp add: vs) (simp add: page_flat_def page_eval)
  have anc: "ancestors page_flat 15 (parentElement (node page_flat 3)) = [2, 1, 0]"
    by (simp add: page_flat_def elem_def eval_nat_numeral)
  have ns: "\<not> scrollable page_flat 2" "\<not> scrollable page_flat 1" "\<not> scrollable page_flat 0"
    by (simp_all add: scrollable_def page_flat_def elem_def)
  have f: "find_scrollable page_flat 0 (parentElement (node page_flat 3)) = None"
    using ns by (simp add: find_scrollable_eq anc)
  have ih: "innerHeight page_flat = 800"
    by (simp add: page_flat_def)
  show ?thesis
    using q vs cur anc ns f ih
    by (simp add: scroll_defs actions_simps)
qed

subsection \<open>Wiring\<close>

lemma add_other:
  "u \<noteq> v \<Longrightarrow> video (fst (addListenerToVideo ver w v)) u = video w u"
  by (cases ver) simp_all

lemma add_marked:
  "truthy (autoScrollListenerAttached (video w v)) \<Longrightarrow> addListenerToVideo ver w v = (w, [])"
  by (cases ver) simp_all

lemma add_marks:
  "\<not> truthy (autoScrollListenerAttached (video w v)) \<Longrightarrow>
     autoScrollListenerAttached (video (fst (addListenerToVideo ver w v)) v) = Some ''true''"
  by (cases ver) simp_all

lemma truthy_true: "truthy (Some ''true'')"
  by (simp add: truthy_def)

lemma add_listener_fresh:
  assumes "autoScrollListenerAttached (video w v) = None" "ended_listeners (video w v) = []"
  shows "ended_listeners (video (fst (addListenerToVideo ver w v)) v) =
           [case ver of V12 \<Rightarrow> ScrollToNextReel | V13 \<Rightarrow> Arrow (allocated w)]"
  using assms by (cases ver) (simp_all add: truthy_def addEventListener_def)

lemma add_keeps_marked:
  "truthy (autoScrollListenerAttached (video w u)) \<Longrightarrow>
     video (fst (addListenerToVideo ver w v)) u = video w u"
  by (cases "u = v") (simp_all add: add_other add_marked)

lemma add_idem:
  "addListenerToVideo ver (fst (addListenerToVideo ver w v)) v = (fst (addListenerToVideo ver w v), [])"
proof (cases "truthy (autoScrollListenerAttached (video w v))")
  case True
  then show ?thesis by (simp add: add_marked)
next
  case False
  then have "truthy (autoScrollListenerAttached (video (fst (addListenerToVideo ver w v)) v))"
    by (simp add: add_marks truthy_true)
  then show ?thesis by (rule add_marked)
qed

lemma for_each_Cons_fst:
  "fst (for_each f s (x # xs)) = fst (for_each f (fst (f s x)) xs)"
  by (simp split: prod.splits)

lemma for_each_keeps_marked:
  "truthy (autoScrollListenerAttached (video w u)) \<Longrightarrow>
     video (fst (for_each (addListenerToVideo ver) w vs)) u = video w u"
proof (induction vs arbitrary: w)
  case Nil
  show ?case by simp
next
  case (Cons x xs)
  have same: "video (fst (addListenerToVideo ver w x)) u = video w u"
    using Cons.prems by (rule add_keeps_marked)
  then have "truthy (autoScrollListenerAttached (video (fst (addListenerToVideo ver w x)) u))"
    using Cons.prems by simp
  from Cons.IH [OF this] same show ?case
    by (simp only: for_each_Cons_fst)
qed

lemma for_each_not_member:
  "u \<notin> set vs \<Longrightarrow> video (fst (for_each (addListenerToVideo ver) w vs)) u = video w u"
proof (induction vs arbitrary: w)
  case Nil
  show ?case by simp
next
  case (Cons x xs)
  then have "u \<noteq> x" "u \<notin> set xs" by auto
  have "video (fst (for_each (addListenerToVideo ver) w (x # xs))) u =
      video (fst (for_each (addListenerToVideo ver) (fst (addListenerToVideo ver w x)) xs)) u"
    by (simp only: for_each_Cons_fst)
  also have "\<dots> = video (fst (addListenerToVideo ver w x)) u"
    using \<open>u \<notin> set xs\<close> by (rule Cons.IH)
  also have "\<dots> = video w u"
    using \<open>u \<noteq> x\<close> by (rule add_other)
  finally show ?case .
qed

lemma for_each_wires_once:
  assumes "autoScrollListenerAttached (video w v) = None" "ended_listeners (video w v) = []"
    and "v \<in> set vs"
  shows "autoScrollListenerAttached (video (fst (for_each (addListenerToVideo ver) w vs)) v) = Some ''true'' \<and>
         (\<exists>cb. ended_listeners (video (fst (for_each (addListenerToVideo ver) w vs)) v) = [cb] \<and>
            (case ver of V12 \<Rightarrow> cb = ScrollToNextReel | V13 \<Rightarrow> \<exists>k. cb = Arrow k))"
  using assms
proof (induction vs arbitrary: w)
  case Nil
  then show ?case by simp
next
  case (Cons x xs)
  let ?w' = "fst (addListenerToVideo ver w x)"
  show ?case
  proof (cases "x = v")
    case True
    have nt: "\<not> truthy (autoScrollListenerAttached (video w v))"
      using Cons.prems(1) by (simp add: truthy_def)
    have m: "autoScrollListenerAttached (video ?w' v) = Some ''true''"
      using nt True by (simp add: add_marks)
    have l: "ended_listeners (video ?w' v) =
        [case ver of V12 \<Rightarrow> ScrollToNextReel | V13 \<Rightarrow> Arrow (allocated w)]"
      using Cons.prems(1,2) True by (simp add: add_listener_fresh)
    have "video (fst (for_each (addListenerToVideo ver) ?w' xs)) v = video ?w' v"
      using m by (simp add: for_each_keeps_marked truthy_true)
    then have "video (fst (for_each (addListenerToVideo ver) w (x # xs))) v = video ?w' v"
      by (simp only: for_each_Cons_fst)
    then show ?thesis
      using m l by (cases ver) (simp_all del: addListenerToVideo.simps)
  next
    case False
    then have "video ?w' v = video w v"
      by (simp add: add_other)
    moreover have "v \<in> set xs"
      using Cons.prems(3) False by simp
    ultimately show ?thesis
      using Cons.IH [of ?w'] Cons.prems(1,2) by (simp only: for_each_Cons_fst)
  qed
qed

lemma for_each_append:
  "for_each f s (xs @ ys) =
     (case for_each f s xs of (s', es) \<Rightarrow>
        (case for_each f s' ys of (s'', es') \<Rightarrow> (s'', es @ es')))"
  by (induction xs arbitrary: s) (simp_all split: prod.splits)

lemma for_each_concat:
  "for_each (\<lambda>s x. for_each f s (g x)) s xs = for_each f s (concat (map g xs))"
  by (induction xs arbitrary: s) (simp_all add: for_each_append split: prod.splits)

lemma handle_node_targets:
  "handle_node ver w n = for_each (addListenerToVideo ver) w (node_targets n)"
  by (cases n) (simp_all add: handle_node_def node_targets_def split: prod.splits)

lemma handleDomChanges_wired_by:
  "handleDomChanges ver w ms = for_each (addListenerToVideo ver) w (wired_by ms)"
proof -
  have "(\<lambda>(w::world) (mutation::mutation).
          if mtype mutation = ''childList'' \<and> length (addedNodes mutation) > 0
          then for_each (handle_node ver) w (addedNodes mutation)
          else (w, [])) =
        (\<lambda>w mutation. for_each (addListenerToVideo ver) w
          (if mtype mutation = ''childList'' \<and> length (addedNodes mutation) > 0
           then concat (map node_targets (addedNodes mutation)) else []))"
  proof (intro ext)
    fix w :: world and mutation :: mutation
    have "for_each (handle_node ver) w (addedNodes mutation) =
        for_each (addListenerToVideo ver) w (concat (map node_targets (addedNodes mutation)))"
      using for_each_concat [of "addListenerToVideo ver" node_targets w "addedNodes mutation"]
      by (simp add: handle_node_targets [abs_def])
    then show "(if mtype mutation = ''childList'' \<and> length (addedNodes mutation) > 0
          then for_each (handle_node ver) w (addedNodes mutation)
          else (w, [])) =
        for_each (addListenerToVideo ver) w
          (if mtype mutation = ''childList'' \<and> length (addedNodes mutation) > 0
           then concat (map node_targets (addedNodes mutation)) else [])"
      by simp
  qed
  then show ?thesis
    unfolding handleDomChanges_def wired_by_def
    by (simp only: for_each_concat)
qed

text \<open>
  Claim C7. For a video that the script has not met (no marker, no listener of the script),
  in both versions: a second call of \<open>addListenerToVideo\<close> changes nothing and logs nothing;
  after any sequence of calls that starts with the video, whatever other videos and
  repetitions follow, the video has exactly one \<^verbatim>\<open>ended\<close> listener and its marker is set; the
  same holds after \<open>handleDomChanges\<close> for any list of mutation records that reaches the video,
  however often. A video whose marker is set is never changed again by the observer: the
  marker is not cleared and no listener is added.
\<close>

theorem wiring_idempotent:
  assumes "autoScrollListenerAttached (video w v) = None" and "ended_listeners (video w v) = []"
  shows "addListenerToVideo ver (fst (addListenerToVideo ver w v)) v =
           (fst (addListenerToVideo ver w v), []) \<and>
         length (ended_listeners (video (fst (for_each (addListenerToVideo ver) w (v # vs))) v)) = 1 \<and>
         autoScrollListenerAttached (video (fst (for_each (addListenerToVideo ver) w (v # vs))) v) =
           Some ''true'' \<and>
         (v \<in> set (wired_by ms) \<longrightarrow>
            length (ended_listeners (video (fst (handleDomChanges ver w ms)) v)) = 1 \<and>
            autoScrollListenerAttached (video (fst (handleDomChanges ver w ms)) v) = Some ''true'') \<and>
         (v \<notin> set (wired_by ms) \<longrightarrow> ended_listeners (video (fst (handleDomChanges ver w ms)) v) = []) \<and>
         (truthy (autoScrollListenerAttached (video w' u)) \<longrightarrow>
            video (fst (handleDomChanges ver w' ms)) u = video w' u)"
proof -
  have a: "v \<in> set (v # vs)" by simp
  from for_each_wires_once [OF assms a, of ver]
  have b: "length (ended_listeners (video (fst (for_each (addListenerToVideo ver) w (v # vs))) v)) = 1"
    and c: "autoScrollListenerAttached (video (fst (for_each (addListenerToVideo ver) w (v # vs))) v) =
      Some ''true''"
    by auto
  have d: "length (ended_listeners (video (fst (handleDomChanges ver w ms)) v)) = 1 \<and>
      autoScrollListenerAttached (video (fst (handleDomChanges ver w ms)) v) = Some ''true''"
    if "v \<in> set (wired_by ms)"
    using for_each_wires_once [OF assms that, of ver] by (auto simp: handleDomChanges_wired_by)
  have e: "ended_listeners (video (fst (handleDomChanges ver w ms)) v) = []"
    if "v \<notin> set (wired_by ms)"
    using that assms(2) by (simp add: handleDomChanges_wired_by for_each_not_member)
  have f: "video (fst (handleDomChanges ver w' ms)) u = video w' u"
    if "truthy (autoScrollListenerAttached (video w' u))"
    using that by (simp add: handleDomChanges_wired_by for_each_keeps_marked)
  show ?thesis
    using add_idem [of ver w v] b c d e f by blast
qed

lemma overlapping_wired: "wired_by overlapping = [7, 7]"
  by (simp add: wired_by_def overlapping_def node_targets_def)

theorem wiring_idempotent_witness:
  "autoScrollListenerAttached (video world0 7) = None \<and> ended_listeners (video world0 7) = [] \<and>
   wired_by overlapping = [7, 7] \<and>
   length (ended_listeners (video (fst (for_each (addListenerToVideo V13) world0 [7, 7, 7])) 7)) = 1 \<and>
   length (ended_listeners (video (fst (handleDomChanges V13 world0 overlapping)) 7)) = 1 \<and>
   length (ended_listeners (video (fst (handleDomChanges V12 world0 overlapping)) 7)) = 1 \<and>
   autoScrollListenerAttached (video (fst (handleDomChanges V13 world0 overlapping)) 7) = Some ''true'' \<and>
   ended_listeners (video (fst (handleDomChanges V13 world0 overlapping)) 8) = [] \<and>
   video (fst (handleDomChanges V13 (fst (handleDomChanges V13 world0 overlapping)) overlapping)) 7 =
     video (fst (handleDomChanges V13 world0 overlapping)) 7"
proof -
  have 1: "autoScrollListenerAttached (video world0 7) = None"
    and 2: "ended_listeners (video world0 7) = []"
    and 3: "autoScrollListenerAttached (video world0 8) = None"
    and 4: "ended_listeners (video world0 8) = []"
    by (simp_all add: world0_def)
  have m: "(7::nat) \<in> set (wired_by overlapping)" "(8::nat) \<notin> set (wired_by overlapping)"
    by (simp_all add: overlapping_wired)
  note t13 = wiring_idempotent [OF 1 2, of V13 "[7, 7]" overlapping
      "fst (handleDomChanges V13 world0 overlapping)" 7]
  note t12 = wiring_idempotent [OF 1 2, of V12 "[7, 7]" overlapping world0 7]
  note t8 = wiring_idempotent [OF 3 4, of V13 "[]" overlapping world0 8]
  have tr: "truthy (autoScrollListenerAttached (video (fst (handleDomChanges V13 world0 overlapping)) 7))"
    using t13 m by (simp add: truthy_true)
  show ?thesis
    using 1 2 overlapping_wired t13 t12 t8 m tr by simp
qed

subsection \<open>The video that ended and the current video\<close>

lemma ended_fresh:
  assumes "autoScrollListenerAttached (video w v) = None" "ended_listeners (video w v) = []"
  shows "ended (fst (addListenerToVideo V12 w v)) p v = fst (scrollToNextReel_v12 p (Some v))"
    and "ended (fst (addListenerToVideo V13 w v)) p v = fst (scrollToNextReel_v13 p)"
  using add_listener_fresh [OF assms, of V12] add_listener_fresh [OF assms, of V13]
  by (simp_all add: ended_def del: addListenerToVideo.simps)

lemma actions_v12:
  assumes "\<forall>i\<in>set (document p). \<not> NEXT_BUTTON_SELECTOR (node p i)"
  shows "actions (fst (scrollToNextReel_v12 p (Some v))) =
     (case find (scrollable p) (ancestors p 15 (parentElement (node p v))) of
        Some c \<Rightarrow> [ElementScrollBy c (clientHeight (node p c)) 0 ''smooth'']
      | None \<Rightarrow> [WindowScrollBy 0 (innerHeight p)])"
  using assms
  by (simp add: scroll_defs querySelector_None [symmetric] find_scrollable_eq
      actions_simps actions_scroll_container split: option.splits)

lemma actions_v13:
  assumes "\<forall>i\<in>set (document p). \<not> NEXT_BUTTON_SELECTOR (node p i)"
  shows "actions (fst (scrollToNextReel_v13 p)) =
     (case current_video p of
        None \<Rightarrow> [WindowScrollBy 0 (innerHeight p)]
      | Some cur \<Rightarrow>
          (case find (scrollable p) (ancestors p 15 (parentElement (node p cur))) of
             Some c \<Rightarrow> [ElementScrollBy c (clientHeight (node p c)) 0 ''smooth'']
           | None \<Rightarrow> []))"
  using assms
  by (simp add: scroll_defs querySelector_None [symmetric] find_scrollable_eq
      actions_simps actions_scroll_container split: option.splits)

lemma page_two_facts:
  "querySelector page_two NEXT_BUTTON_SELECTOR = None"
  "querySelectorAll page_two REEL_VIDEO_SELECTOR = [3, 5]"
  "ancestors page_two 15 (parentElement (node page_two 3)) = [2, 1, 0]"
  "ancestors page_two 15 (parentElement (node page_two 5)) = [4, 1, 0]"
  "scrollable page_two 2" "scrollable page_two 4"
  "clientHeight (node page_two 2) = 600" "clientHeight (node page_two 4) = 800"
  "visibility page_two 3 = Finite 0" "visibility page_two 5 = Finite 1"
  by (simp_all add: page_two_def page_eval scrollable_def eval_nat_numeral)

lemma page_two_current: "current_video page_two = Some 5"
  by (simp add: page_two_facts)

lemma page_two_no_button:
  "\<forall>i\<in>set (document page_two). \<not> NEXT_BUTTON_SELECTOR (node page_two i)"
  using page_two_facts(1) by (simp add: querySelector_None)

text \<open>
  Claim C4, as stated, fails in version 1.3. On \<open>page_two\<close> the video 3 (above the viewport,
  in the scrollable container 2) ends; its listener is the arrow function, which calls
  \<open>scrollToNextReel\<close> with no argument, and the scan makes the visible video 5 the current one:
  the container 4 is scrolled, not the container 2 of the video that ended.
\<close>

theorem ended_video_not_current_v13:
  "ended_listeners (video (fst (for_each (addListenerToVideo V13) world0 [3, 5])) 3) = [Arrow 0] \<and>
   find_scrollable page_two 0 (parentElement (node page_two 3)) = Some 2 \<and>
   current_video page_two = Some 5 \<and>
   find_scrollable page_two 0 (parentElement (node page_two 5)) = Some 4 \<and>
   actions (ended (fst (for_each (addListenerToVideo V13) world0 [3, 5])) page_two 3) =
     [ElementScrollBy 4 800 0 ''smooth''] \<and>
   actions (ended (fst (for_each (addListenerToVideo V13) world0 [3, 5])) page_two 3) \<noteq>
     [ElementScrollBy 2 600 0 ''smooth'']"
proof -
  have l: "ended_listeners (video (fst (for_each (addListenerToVideo V13) world0 [3, 5])) 3) = [Arrow 0]"
    by (simp add: world0_def truthy_def addEventListener_def)
  have f2: "find_scrollable page_two 0 (parentElement (node page_two 3)) = Some 2"
    using page_two_facts(5) by (simp add: find_scrollable_eq page_two_facts(3))
  have f4: "find_scrollable page_two 0 (parentElement (node page_two 5)) = Some 4"
    using page_two_facts(6) by (simp add: find_scrollable_eq page_two_facts(4))
  have a: "actions (fst (scrollToNextReel_v13 page_two)) = [ElementScrollBy 4 800 0 ''smooth'']"
    using page_two_facts(6)
    by (simp add: actions_v13 [OF page_two_no_button] page_two_current page_two_facts(4,8))
  have e: "ended (fst (for_each (addListenerToVideo V13) world0 [3, 5])) page_two 3 =
      fst (scrollToNextReel_v13 page_two)"
    using l by (simp add: ended_def del: for_each.simps)
  show ?thesis
    using l f2 f4 page_two_current a e by simp
qed

text \<open>
  Claim C4, amended. For a video wired by the script, on a page without a button labelled
  \<^verbatim>\<open>Next\<close>: in version 1.2 the listener receives the event and the search for a scrollable
  ancestor starts at the video that ended; in version 1.3 the listener passes no event and
  the search starts at the video selected by the visibility scan, whichever video ended.
\<close>

theorem ended_current_video:
  assumes "autoScrollListenerAttached (video w v) = None" and "ended_listeners (video w v) = []"
    and "\<forall>i\<in>set (document p). \<not> NEXT_BUTTON_SELECTOR (node p i)"
  shows "ended (fst (addListenerToVideo V12 w v)) p v = fst (scrollToNextReel_v12 p (Some v)) \<and>
         actions (ended (fst (addListenerToVideo V12 w v)) p v) =
           (case find (scrollable p) (ancestors p 15 (parentElement (node p v))) of
              Some c \<Rightarrow> [ElementScrollBy c (clientHeight (node p c)) 0 ''smooth'']
            | None \<Rightarrow> [WindowScrollBy 0 (innerHeight p)]) \<and>
         ended (fst (addListenerToVideo V13 w v)) p v = fst (scrollToNextReel_v13 p) \<and>
         actions (ended (fst (addListenerToVideo V13 w v)) p v) =
           (case current_video p of
              None \<Rightarrow> [WindowScrollBy 0 (innerHeight p)]
            | Some cur \<Rightarrow>
                (case find (scrollable p) (ancestors p 15 (parentElement (node p cur))) of
                   Some c \<Rightarrow> [ElementScrollBy c (clientHeight (node p c)) 0 ''smooth'']
                 | None \<Rightarrow> []))"
  using ended_fresh [OF assms(1,2), of p] actions_v12 [OF assms(3), of v] actions_v13 [OF assms(3)]
  by (simp del: addListenerToVideo.simps)

theorem ended_current_video_witness:
  "actions (ended (fst (addListenerToVideo V12 world0 3)) page_two 3) =
     [ElementScrollBy 2 600 0 ''smooth''] \<and>
   actions (ended (fst (addListenerToVideo V13 world0 3)) page_two 3) =
     [ElementScrollBy 4 800 0 ''smooth''] \<and>
   current_video page_two = Some 5"
proof -
  have 1: "autoScrollListenerAttached (video world0 3) = None"
    and 2: "ended_listeners (video world0 3) = []"
    by (simp_all add: world0_def)
  have f2: "find (scrollable page_two) (ancestors page_two 15 (parentElement (node page_two 3))) = Some 2"
    using page_two_facts(5) by (simp add: page_two_facts(3))
  have f4: "find (scrollable page_two) (ancestors page_two 15 (parentElement (node page_two 5))) = Some 4"
    using page_two_facts(6) by (simp add: page_two_facts(4))
  note t = ended_current_video [OF 1 2 page_two_no_button,
      unfolded f2 f4 page_two_current option.case page_two_facts(7,8)]
  from t page_two_current show ?thesis
    by blast
qed

subsection \<open>Trimming and lowercasing\<close>

lemma lower_char_iff:
  assumes "97 \<le> k" "k \<le> 122"
  shows "lower_char c = char_of k \<longleftrightarrow> (of_char c :: nat) = k \<or> (of_char c :: nat) = k - 32"
proof -
  define n where "n = (of_char c :: nat)"
  have n: "n < 256" by (simp add: n_def)
  have eq: "char_of m = char_of k \<longleftrightarrow> m mod 256 = k" for m :: nat
  proof -
    have "char_of m = char_of k \<longleftrightarrow> (of_char (char_of m) :: nat) = of_char (char_of k)"
      by (simp only: of_char_eq_iff)
    also have "\<dots> \<longleftrightarrow> m mod 256 = k mod 256"
      by (simp only: of_char_of)
    also have "k mod 256 = k" using assms by simp
    finally show ?thesis .
  qed
  have c: "c = char_of n" by (simp add: n_def)
  show ?thesis
  proof (cases "(65 \<le> n \<and> n \<le> 90) \<or> (192 \<le> n \<and> n \<le> 222 \<and> n \<noteq> 215)")
    case True
    then have "lower_char c = char_of (n + 32)"
      unfolding lower_char_def Let_def n_def [symmetric] by (rule if_P)
    moreover have "(n + 32) mod 256 = n + 32" using True by auto
    ultimately have "lower_char c = char_of k \<longleftrightarrow> n + 32 = k"
      by (simp only: eq)
    then show ?thesis using True assms unfolding n_def [symmetric] by auto
  next
    case False
    then have "lower_char c = c"
      unfolding lower_char_def Let_def n_def [symmetric] by (rule if_not_P)
    moreover have "n mod 256 = n" using n by simp
    ultimately have "lower_char c = char_of k \<longleftrightarrow> n = k"
      using c eq [of n] by simp
    then show ?thesis using False assms unfolding n_def [symmetric] by auto
  qed
qed

lemma lower_char_letter:
  "lower_char c = CHR ''n'' \<longleftrightarrow> c = CHR ''n'' \<or> c = CHR ''N''"
  "lower_char c = CHR ''e'' \<longleftrightarrow> c = CHR ''e'' \<or> c = CHR ''E''"
  "lower_char c = CHR ''x'' \<longleftrightarrow> c = CHR ''x'' \<or> c = CHR ''X''"
  "lower_char c = CHR ''t'' \<longleftrightarrow> c = CHR ''t'' \<or> c = CHR ''T''"
proof -
  have conv: "d = char_of k" if "of_char d = k" for d and k :: nat
    using that char_of_char [of d, where ?'a = nat] by simp
  have a: "CHR ''n'' = char_of (110::nat)" "CHR ''e'' = char_of (101::nat)"
    "CHR ''x'' = char_of (120::nat)" "CHR ''t'' = char_of (116::nat)"
    by (rule conv, simp)+
  have b: "c = CHR ''n'' \<longleftrightarrow> (of_char c :: nat) = 110" "c = CHR ''N'' \<longleftrightarrow> (of_char c :: nat) = 78"
    "c = CHR ''e'' \<longleftrightarrow> (of_char c :: nat) = 101" "c = CHR ''E'' \<longleftrightarrow> (of_char c :: nat) = 69"
    "c = CHR ''x'' \<longleftrightarrow> (of_char c :: nat) = 120" "c = CHR ''X'' \<longleftrightarrow> (of_char c :: nat) = 88"
    "c = CHR ''t'' \<longleftrightarrow> (of_char c :: nat) = 116" "c = CHR ''T'' \<longleftrightarrow> (of_char c :: nat) = 84"
    by (cases c; simp; fail)+
  have "lower_char c = CHR ''n'' \<longleftrightarrow> (of_char c :: nat) = 110 \<or> (of_char c :: nat) = 78"
    using lower_char_iff [of 110 c] by (simp add: a(1))
  then show "lower_char c = CHR ''n'' \<longleftrightarrow> c = CHR ''n'' \<or> c = CHR ''N''"
    by (simp only: b)
  have "lower_char c = CHR ''e'' \<longleftrightarrow> (of_char c :: nat) = 101 \<or> (of_char c :: nat) = 69"
    using lower_char_iff [of 101 c] by (simp add: a(2))
  then show "lower_char c = CHR ''e'' \<longleftrightarrow> c = CHR ''e'' \<or> c = CHR ''E''"
    by (simp only: b)
  have "lower_char c = CHR ''x'' \<longleftrightarrow> (of_char c :: nat) = 120 \<or> (of_char c :: nat) = 88"
    using lower_char_iff [of 120 c] by (simp add: a(3))
  then show "lower_char c = CHR ''x'' \<longleftrightarrow> c = CHR ''x'' \<or> c = CHR ''X''"
    by (simp only: b)
  have "lower_char c = CHR ''t'' \<longleftrightarrow> (of_char c :: nat) = 116 \<or> (of_char c :: nat) = 84"
    using lower_char_iff [of 116 c] by (simp add: a(4))
  then show "lower_char c = CHR ''t'' \<longleftrightarrow> c = CHR ''t'' \<or> c = CHR ''T''"
    by (simp only: b)
qed

lemma toLowerCase_next:
  "toLowerCase w = ''next'' \<longleftrightarrow>
     (\<exists>c1 c2 c3 c4. w = [c1, c2, c3, c4] \<and> c1 \<in> {CHR ''n'', CHR ''N''} \<and> c2 \<in> {CHR ''e'', CHR ''E''} \<and>
        c3 \<in> {CHR ''x'', CHR ''X''} \<and> c4 \<in> {CHR ''t'', CHR ''T''})"
proof -
  have "toLowerCase w = ''next'' \<longleftrightarrow>
      (\<exists>c1 c2 c3 c4. w = [c1, c2, c3, c4] \<and> lower_char c1 = CHR ''n'' \<and> lower_char c2 = CHR ''e'' \<and>
         lower_char c3 = CHR ''x'' \<and> lower_char c4 = CHR ''t'')"
    unfolding toLowerCase_def by (auto simp: map_eq_Cons_conv)
  then show ?thesis
    by (simp only: lower_char_letter insert_iff empty_iff simp_thms)
qed

lemma trim_decomp:
  "\<exists>a b. t = a @ trim t @ b \<and> list_all is_whitespace a \<and> list_all is_whitespace b"
proof -
  let ?s = "dropWhile is_whitespace t"
  let ?a = "takeWhile is_whitespace t"
  let ?b = "rev (takeWhile is_whitespace (rev ?s))"
  have "rev (takeWhile is_whitespace (rev ?s) @ dropWhile is_whitespace (rev ?s)) = ?s"
    by (simp only: takeWhile_dropWhile_id rev_rev_ident)
  then have "rev (dropWhile is_whitespace (rev ?s)) @ ?b = ?s"
    by (simp only: rev_append)
  then have "?s = trim t @ ?b"
    by (simp only: trim_def)
  moreover have "t = ?a @ ?s" by simp
  ultimately have "t = ?a @ trim t @ ?b" by metis
  moreover have "list_all is_whitespace ?a"
    by (auto simp: list_all_iff dest: set_takeWhileD)
  moreover have "list_all is_whitespace ?b"
    by (auto simp: list_all_iff dest: set_takeWhileD)
  ultimately show ?thesis by blast
qed

lemma trim_unique:
  assumes "list_all is_whitespace a" "list_all is_whitespace b"
    and "\<not> is_whitespace x" "\<not> is_whitespace z"
  shows "trim (a @ (x # m @ [z]) @ b) = x # m @ [z]"
proof -
  have A: "dropWhile is_whitespace (a @ ys) = dropWhile is_whitespace ys" for ys
    using assms(1) by (intro dropWhile_append2) (simp add: list_all_iff)
  have B: "dropWhile is_whitespace (rev b @ ys) = dropWhile is_whitespace ys" for ys
    using assms(2) by (intro dropWhile_append2) (simp add: list_all_iff)
  have "dropWhile is_whitespace (a @ (x # m @ [z]) @ b) = (x # m @ [z]) @ b"
    using A [of "(x # m @ [z]) @ b"] assms(3) by simp
  moreover have "rev ((x # m @ [z]) @ b) = rev b @ (z # rev m @ [x])"
    by simp
  moreover have "dropWhile is_whitespace (rev b @ (z # rev m @ [x])) = z # rev m @ [x]"
    using B [of "z # rev m @ [x]"] assms(4) by simp
  moreover have "rev (z # rev m @ [x]) = x # m @ [z]"
    by simp
  ultimately show ?thesis
    by (simp only: trim_def)
qed

lemma not_whitespace_letters:
  "\<not> is_whitespace (CHR ''n'')" "\<not> is_whitespace (CHR ''N'')"
  "\<not> is_whitespace (CHR ''t'')" "\<not> is_whitespace (CHR ''T'')"
  by (simp_all add: is_whitespace_def)

lemma command_next_iff:
  "toLowerCase (trim t) = ''next'' \<longleftrightarrow>
     (\<exists>a b c1 c2 c3 c4. t = a @ [c1, c2, c3, c4] @ b \<and>
        list_all is_whitespace a \<and> list_all is_whitespace b \<and>
        c1 \<in> {CHR ''n'', CHR ''N''} \<and> c2 \<in> {CHR ''e'', CHR ''E''} \<and>
        c3 \<in> {CHR ''x'', CHR ''X''} \<and> c4 \<in> {CHR ''t'', CHR ''T''})"
  (is "?L \<longleftrightarrow> ?R")
proof
  assume ?L
  then obtain c1 c2 c3 c4 where w: "trim t = [c1, c2, c3, c4]"
    "c1 \<in> {CHR ''n'', CHR ''N''}" "c2 \<in> {CHR ''e'', CHR ''E''}"
    "c3 \<in> {CHR ''x'', CHR ''X''}" "c4 \<in> {CHR ''t'', CHR ''T''}"
    unfolding toLowerCase_next by blast
  from trim_decomp [of t] obtain a b where
    "t = a @ trim t @ b" "list_all is_whitespace a" "list_all is_whitespace b"
    by blast
  with w show ?R by metis
next
  assume ?R
  then obtain a b c1 c2 c3 c4 where t: "t = a @ [c1, c2, c3, c4] @ b"
    and ws: "list_all is_whitespace a" "list_all is_whitespace b"
    and c: "c1 \<in> {CHR ''n'', CHR ''N''}" "c2 \<in> {CHR ''e'', CHR ''E''}"
      "c3 \<in> {CHR ''x'', CHR ''X''}" "c4 \<in> {CHR ''t'', CHR ''T''}"
    by blast
  have "\<not> is_whitespace c1" "\<not> is_whitespace c4"
    using c(1,4) not_whitespace_letters by auto
  from trim_unique [OF ws this, of "[c2, c3]"] have "trim t = [c1, c2, c3, c4]"
    using t by simp
  then show ?L
    unfolding toLowerCase_next using c by blast
qed

subsection \<open>The voice command\<close>

lemma lower_trim_examples:
  "toLowerCase (trim ''  NeXT '') = ''next''"
  "toLowerCase (trim ''previous'') = ''previous''"
  by code_simp+

text \<open>
  Claim C6. The handler of a result reads the first alternative of the last result; it logs
  the trimmed, lowercased transcript and, exactly when that is \<^verbatim>\<open>next\<close>, logs once more and runs
  what the \<^verbatim>\<open>ended\<close> listener of version 1.3 runs, \<open>scrollToNextReel\<close> on the same page; for any
  other transcript the first log is all it does. The normalised transcript is \<^verbatim>\<open>next\<close>
  exactly when the transcript is the four letters n, e, x, t, each in either case, between
  two possibly empty runs of whitespace.
\<close>

theorem voice_command:
  \<open>onresult p (results @ [transcript # alternatives]) =
     (if toLowerCase (trim transcript) = ''next''
      then (Console Log ''Voice command heard: "${command}"'' [Str ''next''] #
            Console Log '''Next' command recognized. Scrolling...'' [] #
            fst (run_listener p v (Arrow k)), snd (run_listener p v (Arrow k)))
      else ([Console Log ''Voice command heard: "${command}"'' [Str (toLowerCase (trim transcript))]],
            Normal ())) \<and>
   run_listener p v (Arrow k) = scrollToNextReel_v13 p \<and>
   (toLowerCase (trim transcript) = ''next'' \<longleftrightarrow>
      (\<exists>a b c1 c2 c3 c4. transcript = a @ [c1, c2, c3, c4] @ b \<and>
         list_all is_whitespace a \<and> list_all is_whitespace b \<and>
         c1 \<in> {CHR ''n'', CHR ''N''} \<and> c2 \<in> {CHR ''e'', CHR ''E''} \<and>
         c3 \<in> {CHR ''x'', CHR ''X''} \<and> c4 \<in> {CHR ''t'', CHR ''T''}))\<close>
proof (intro conjI)
  show \<open>onresult p (results @ [transcript # alternatives]) =
     (if toLowerCase (trim transcript) = ''next''
      then (Console Log ''Voice command heard: "${command}"'' [Str ''next''] #
            Console Log '''Next' command recognized. Scrolling...'' [] #
            fst (run_listener p v (Arrow k)), snd (run_listener p v (Arrow k)))
      else ([Console Log ''Voice command heard: "${command}"'' [Str (toLowerCase (trim transcript))]],
            Normal ()))\<close>
    by (simp add: onresult_def seq_def console_def Let_def)
  show "run_listener p v (Arrow k) = scrollToNextReel_v13 p"
    by simp
  show "toLowerCase (trim transcript) = ''next'' \<longleftrightarrow>
      (\<exists>a b c1 c2 c3 c4. transcript = a @ [c1, c2, c3, c4] @ b \<and>
         list_all is_whitespace a \<and> list_all is_whitespace b \<and>
         c1 \<in> {CHR ''n'', CHR ''N''} \<and> c2 \<in> {CHR ''e'', CHR ''E''} \<and>
         c3 \<in> {CHR ''x'', CHR ''X''} \<and> c4 \<in> {CHR ''t'', CHR ''T''})"
    by (rule command_next_iff)
qed

lemma page_feed_actions:
  "actions (fst (scrollToNextReel_v13 page_feed)) = [ElementScrollBy 2 800 0 ''smooth'']"
proof -
  have 1: "\<forall>i\<in>set (document page_feed). \<not> NEXT_BUTTON_SELECTOR (node page_feed i)"
    by (simp add: page_feed_def elem_def NEXT_BUTTON_SELECTOR_def)
  have 2: "find (scrollable page_feed) (ancestors page_feed 15 (parentElement (node page_feed 3))) = Some 2"
    by (simp add: page_feed_ancestors) (simp add: scrollable_def page_feed_def elem_def)
  have 3: "clientHeight (node page_feed 2) = 800"
    by (simp add: page_feed_def elem_def)
  show ?thesis
    by (simp only: actions_v13 [OF 1] page_feed_current 2 3 option.case)
qed

lemma page_feed_returns: "snd (scrollToNextReel_v13 page_feed) = Normal ()"
proof -
  have "querySelector page_feed NEXT_BUTTON_SELECTOR = None"
    by (simp add: page_feed_def elem_def querySelector_def NEXT_BUTTON_SELECTOR_def)
  then show ?thesis
    by (simp add: scroll_defs split: option.splits)
qed

theorem voice_command_witness:
  \<open>onresult page_feed [[''  NeXT '']] =
     (Console Log ''Voice command heard: "${command}"'' [Str ''next''] #
      Console Log '''Next' command recognized. Scrolling...'' [] #
      fst (scrollToNextReel_v13 page_feed), Normal ()) \<and>
   actions (fst (onresult page_feed [[''  NeXT '']])) = [ElementScrollBy 2 800 0 ''smooth''] \<and>
   onresult page_feed [[''previous'']] =
     ([Console Log ''Voice command heard: "${command}"'' [Str ''previous'']], Normal ()) \<and>
   actions (fst (onresult page_feed [[''previous'']])) = []\<close>
proof -
  note a = voice_command [of page_feed "[]" "''  NeXT ''" "[]" 3 0, unfolded lower_trim_examples]
  note b = voice_command [of page_feed "[]" "''previous''" "[]" 3 0, unfolded lower_trim_examples]
  show ?thesis
    using a b page_feed_actions page_feed_returns by (simp add: actions_simps)
qed

subsection \<open>The recognition session\<close>

lemma no_start_in_scroll: "RecognitionStart \<notin> set (fst (scrollToNextReel_v13 p))"
  by (simp add: scroll_defs scroll_container_def Let_def split: option.splits)

lemma no_start_onresult: "RecognitionStart \<notin> set (fst (onresult p results))"
  using no_start_in_scroll [of p]
  by (simp add: onresult_def seq_def console_def Let_def split: list.splits)

lemma onend_effects:
  "fst (onend failure) =
     [Console Log ''Speech recognition service ended. Restarting...'' [], RecognitionStart]"
  by (simp add: onend_def seq_def console_def recognition_start_def)

lemma onerror_effects:
  "onerror error =
     ([Console Error
         (if error = ''not-allowed'' then ''Microphone access denied. Voice commands will not work.''
          else ''Speech recognition error:'')
         (if error = ''not-allowed'' then [] else [Str error])], Normal ())"
  by (simp add: onerror_def console_def)

lemma handle_event_start:
  "RecognitionStart \<in> set (fst (handle_event p failure ev)) \<longleftrightarrow> ev = EndEvent"
  by (cases ev) (simp_all add: no_start_onresult onend_effects onerror_effects)

lemma starts_append: "starts (xs @ ys) = starts xs + starts ys"
  by (simp add: starts_def)

lemma starts_handle_event:
  "starts (fst (handle_event p failure ev)) = (if ev = EndEvent then 1 else 0)"
proof (cases "ev = EndEvent")
  case True
  then show ?thesis by (simp add: onend_effects starts_def)
next
  case False
  then have "RecognitionStart \<notin> set (fst (handle_event p failure ev))"
    by (simp add: handle_event_start)
  then have "filter (\<lambda>e. e = RecognitionStart) (fst (handle_event p failure ev)) = []"
    by (auto simp: filter_empty_conv)
  then show ?thesis using False by (simp add: starts_def)
qed

lemma starts_events:
  "starts (concat (map (\<lambda>(failure, ev). fst (handle_event p failure ev)) evs)) =
     length (filter (\<lambda>(failure, ev). ev = EndEvent) evs)"
proof (induction evs)
  case Nil
  show ?case by (simp add: starts_def)
next
  case (Cons x evs)
  obtain failure ev where x: "x = (failure, ev)" by (cases x)
  show ?case
    using Cons.IH by (simp add: x starts_append starts_handle_event del: handle_event.simps)
qed

text \<open>
  Claim C8. The handler of \<^verbatim>\<open>end\<close> logs and calls \<^verbatim>\<open>recognition.start()\<close>, whatever the platform
  answers; among the three handlers it is the only one that does, so over any sequence of
  events the number of restarts is the number of \<^verbatim>\<open>end\<close> events. The handler of an error only
  logs: one message for \<^verbatim>\<open>not-allowed\<close>, another one, with the error, for every other error.
\<close>

theorem restart_on_end:
  "fst (onend failure) =
     [Console Log ''Speech recognition service ended. Restarting...'' [], RecognitionStart] \<and>
   (RecognitionStart \<in> set (fst (handle_event p failure ev)) \<longleftrightarrow> ev = EndEvent) \<and>
   starts (concat (map (\<lambda>(failure, ev). fst (handle_event p failure ev)) evs)) =
     length (filter (\<lambda>(failure, ev). ev = EndEvent) evs) \<and>
   onerror ''not-allowed'' =
     ([Console Error ''Microphone access denied. Voice commands will not work.'' []], Normal ()) \<and>
   (error \<noteq> ''not-allowed'' \<longrightarrow>
      onerror error = ([Console Error ''Speech recognition error:'' [Str error]], Normal ()) \<and>
      onerror error \<noteq> onerror ''not-allowed'') \<and>
   RecognitionStart \<notin> set (fst (onerror error))"
  using onend_effects [of failure] handle_event_start [of p failure ev] starts_events [of p evs]
  by (simp add: onerror_effects)

theorem restart_on_end_witness:
  "onerror ''network'' = ([Console Error ''Speech recognition error:'' [Str ''network'']], Normal ()) \<and>
   onerror ''network'' \<noteq> onerror ''not-allowed'' \<and>
   RecognitionStart \<notin> set (fst (onerror ''not-allowed'')) \<and>
   starts (concat (map (\<lambda>(failure, ev). fst (handle_event page_feed failure ev))
     [(None, ResultEvent [[''next'']]), (None, EndEvent), (None, ErrorEvent ''not-allowed''),
      (None, EndEvent), (Some ''InvalidStateError'', EndEvent)])) = 3"
proof -
  have n: "''network'' \<noteq> ''not-allowed''" by simp
  show ?thesis
    using restart_on_end [of None page_feed EndEvent
        "[(None, ResultEvent [[''next'']]), (None, EndEvent), (None, ErrorEvent ''not-allowed''),
          (None, EndEvent), (Some ''InvalidStateError'', EndEvent)]" "''network''"]
      restart_on_end [of None page_feed EndEvent "[]" "''not-allowed''"] n
    by simp
qed

subsection \<open>Setting up the voice trigger, and the script from top to bottom\<close>

lemma setup_unsupported:
  assumes "SpeechRecognition win = None" "webkitSpeechRecognition win = None"
  shows "setupVoiceCommands win failure =
     ([Console Error ''Speech Recognition API not supported in this browser.'' []], Normal None)"
  using assms by (simp add: setupVoiceCommands_def seq_def console_def)

lemma setup_supported:
  assumes "SpeechRecognition win \<noteq> None \<or> webkitSpeechRecognition win \<noteq> None"
  shows "setupVoiceCommands win failure =
     (RecognitionStart #
        (case failure of
           None \<Rightarrow> [Console Log started_message []]
         | Some e \<Rightarrow> [Console Error ''Could not start voice recognition:'' [Exn e]]),
      Normal (Some \<lparr>continuous = True, lang = ''en-US'', interimResults = False,
        maxAlternatives = 1\<rparr>))"
  using assms
  by (auto simp: setupVoiceCommands_def seq_def try_catch_def console_def recognition_start_def
      Let_def split: option.splits)

lemma setup_returns: "\<exists>r. snd (setupVoiceCommands win failure) = Normal r"
proof (cases "SpeechRecognition win \<noteq> None \<or> webkitSpeechRecognition win \<noteq> None")
  case True
  then show ?thesis by (simp add: setup_supported)
next
  case False
  then show ?thesis by (simp add: setup_unsupported)
qed

lemma init_with_body:
  assumes "body p = Some b"
  shows "\<exists>r. snd (setupVoiceCommands win failure) = Normal r \<and>
     init_v13 win failure p w =
       ((fst (for_each (addListenerToVideo V13) (w\<lparr>observers := observers w @ [(b, OBSERVER_CONFIG)]\<rparr>)
            (querySelectorAll p REEL_VIDEO_SELECTOR)))\<lparr>recognition := r\<rparr>,
        Console Log ''Instagram Auto-Reel Scroller v1.3: Content script loaded.'' [] #
          snd (for_each (addListenerToVideo V13) (w\<lparr>observers := observers w @ [(b, OBSERVER_CONFIG)]\<rparr>)
            (querySelectorAll p REEL_VIDEO_SELECTOR)) @
          fst (setupVoiceCommands win failure),
        Normal ())"
proof -
  from setup_returns [of win failure] obtain r where r: "snd (setupVoiceCommands win failure) = Normal r"
    by blast
  then obtain vs where sv: "setupVoiceCommands win failure = (vs, Normal r)"
    by (metis prod.collapse)
  obtain w2 es where fe:
    "for_each (addListenerToVideo V13) (w\<lparr>observers := observers w @ [(b, OBSERVER_CONFIG)]\<rparr>)
       (querySelectorAll p REEL_VIDEO_SELECTOR) = (w2, es)"
    by fastforce
  have "init_v13 win failure p w =
      (w2\<lparr>recognition := r\<rparr>,
       Console Log ''Instagram Auto-Reel Scroller v1.3: Content script loaded.'' [] # es @ vs,
       Normal ())"
    using assms sv fe by (simp add: init_v13_def Let_def)
  then have "init_v13 win failure p w =
       ((fst (for_each (addListenerToVideo V13) (w\<lparr>observers := observers w @ [(b, OBSERVER_CONFIG)]\<rparr>)
            (querySelectorAll p REEL_VIDEO_SELECTOR)))\<lparr>recognition := r\<rparr>,
        Console Log ''Instagram Auto-Reel Scroller v1.3: Content script loaded.'' [] #
          snd (for_each (addListenerToVideo V13) (w\<lparr>observers := observers w @ [(b, OBSERVER_CONFIG)]\<rparr>)
            (querySelectorAll p REEL_VIDEO_SELECTOR)) @
          fst (setupVoiceCommands win failure),
        Normal ())"
    by (simp add: sv fe)
  with r show ?thesis by blast
qed

lemma add_observers:
  "observers (fst (addListenerToVideo ver w v)) = observers w"
  by (cases ver) simp_all

lemma for_each_observers:
  "observers (fst (for_each (addListenerToVideo ver) w vs)) = observers w"
proof (induction vs arbitrary: w)
  case Nil
  show ?case by simp
next
  case (Cons x xs)
  show ?case
    using Cons.IH [of "fst (addListenerToVideo ver w x)"]
    by (simp only: for_each_Cons_fst add_observers)
qed

lemma for_each_Cons_snd:
  "snd (for_each f s (x # xs)) = snd (f s x) @ snd (for_each f (fst (f s x)) xs)"
  by (simp split: prod.splits)

lemma add_no_start: "RecognitionStart \<notin> set (snd (addListenerToVideo ver w v))"
  by (cases ver) simp_all

lemma for_each_no_start:
  "filter (\<lambda>e. e = RecognitionStart) (snd (for_each (addListenerToVideo ver) w vs)) = []"
proof (induction vs arbitrary: w)
  case Nil
  show ?case by simp
next
  case (Cons x xs)
  have "filter (\<lambda>e. e = RecognitionStart) (snd (addListenerToVideo ver w x)) = []"
    using add_no_start [of ver w x] by (auto simp: filter_empty_conv)
  then show ?case
    using Cons.IH [of "fst (addListenerToVideo ver w x)"]
    by (simp only: for_each_Cons_snd filter_append append_Nil)
qed

lemma init_wiring:
  assumes "body p = Some b"
  shows "video (fst (init_v13 win failure p w)) =
           video (fst (for_each (addListenerToVideo V13) (w\<lparr>observers := observers w @ [(b, OBSERVER_CONFIG)]\<rparr>)
             (querySelectorAll p REEL_VIDEO_SELECTOR)))"
    and "observers (fst (init_v13 win failure p w)) =
           observers (fst (for_each (addListenerToVideo V13) (w\<lparr>observers := observers w @ [(b, OBSERVER_CONFIG)]\<rparr>)
             (querySelectorAll p REEL_VIDEO_SELECTOR)))"
    and "snd (snd (init_v13 win failure p w)) = Normal ()"
  using init_with_body [OF assms, of win failure w] by auto

lemma init_ended:
  assumes "body p = Some b" "v \<in> set (querySelectorAll p REEL_VIDEO_SELECTOR)"
    and "autoScrollListenerAttached (video w v) = None" "ended_listeners (video w v) = []"
  shows "ended (fst (init_v13 win failure p w)) p' v = fst (scrollToNextReel_v13 p')"
proof -
  let ?w1 = "w\<lparr>observers := observers w @ [(b, OBSERVER_CONFIG)]\<rparr>"
  have "autoScrollListenerAttached (video ?w1 v) = None" "ended_listeners (video ?w1 v) = []"
    using assms(3,4) by simp_all
  from for_each_wires_once [OF this assms(2), of V13]
  obtain k where "ended_listeners (video (fst (for_each (addListenerToVideo V13) ?w1
      (querySelectorAll p REEL_VIDEO_SELECTOR))) v) = [Arrow k]"
    by auto
  then have "ended_listeners (video (fst (init_v13 win failure p w)) v) = [Arrow k]"
    by (simp only: init_wiring(1) [OF assms(1)])
  then show ?thesis
    by (simp add: ended_def)
qed

text \<open>
  Claim C9. On a platform that exposes neither \<^verbatim>\<open>SpeechRecognition\<close> nor
  \<^verbatim>\<open>webkitSpeechRecognition\<close>, \<open>setupVoiceCommands\<close> logs one error and returns without a
  session and without a call of \<^verbatim>\<open>recognition.start()\<close>; the script as a whole still returns
  normally, with the observer registered on the body and the videos wired exactly as on a
  platform with recognition, so that a video of the page which the script had not met has
  one listener and its \<^verbatim>\<open>ended\<close> event runs \<open>scrollToNextReel\<close>. When \<^verbatim>\<open>recognition.start()\<close>
  throws, \<open>setupVoiceCommands\<close> logs the exception and returns normally, and so does the
  script.
\<close>

theorem voice_unsupported:
  "(SpeechRecognition win = None \<and> webkitSpeechRecognition win = None \<longrightarrow>
      setupVoiceCommands win failure =
        ([Console Error ''Speech Recognition API not supported in this browser.'' []], Normal None) \<and>
      (body p = Some b \<longrightarrow>
         snd (snd (init_v13 win failure p w)) = Normal () \<and>
         recognition (fst (init_v13 win failure p w)) = None \<and>
         observers (fst (init_v13 win failure p w)) = observers w @ [(b, OBSERVER_CONFIG)] \<and>
         video (fst (init_v13 win failure p w)) = video (fst (init_v13 win' failure' p w)) \<and>
         starts (fst (snd (init_v13 win failure p w))) = 0 \<and>
         (v \<in> set (querySelectorAll p REEL_VIDEO_SELECTOR) \<and>
          autoScrollListenerAttached (video w v) = None \<and> ended_listeners (video w v) = [] \<longrightarrow>
            length (ended_listeners (video (fst (init_v13 win failure p w)) v)) = 1 \<and>
            ended (fst (init_v13 win failure p w)) p' v = fst (scrollToNextReel_v13 p')))) \<and>
   (\<exists>r. snd (setupVoiceCommands win (Some e)) = Normal r) \<and>
   (SpeechRecognition win \<noteq> None \<or> webkitSpeechRecognition win \<noteq> None \<longrightarrow>
      fst (setupVoiceCommands win (Some e)) =
        [RecognitionStart, Console Error ''Could not start voice recognition:'' [Exn e]]) \<and>
   (body p = Some b \<longrightarrow> snd (snd (init_v13 win (Some e) p w)) = Normal ())"
proof (intro conjI impI)
  assume none: "SpeechRecognition win = None \<and> webkitSpeechRecognition win = None"
  then show u: "setupVoiceCommands win failure =
      ([Console Error ''Speech Recognition API not supported in this browser.'' []], Normal None)"
    by (simp add: setup_unsupported)
  assume body: "body p = Some b"
  let ?w1 = "w\<lparr>observers := observers w @ [(b, OBSERVER_CONFIG)]\<rparr>"
  let ?fe = "for_each (addListenerToVideo V13) ?w1 (querySelectorAll p REEL_VIDEO_SELECTOR)"
  from init_with_body [OF body, of win failure w] u
  have init: "init_v13 win failure p w =
      ((fst ?fe)\<lparr>recognition := None\<rparr>,
       Console Log ''Instagram Auto-Reel Scroller v1.3: Content script loaded.'' [] # snd ?fe @
         [Console Error ''Speech Recognition API not supported in this browser.'' []],
       Normal ())"
    by auto
  show "snd (snd (init_v13 win failure p w)) = Normal ()"
    by (simp add: init)
  show "recognition (fst (init_v13 win failure p w)) = None"
    by (simp add: init)
  show "observers (fst (init_v13 win failure p w)) = observers w @ [(b, OBSERVER_CONFIG)]"
    by (simp add: init for_each_observers)
  show "video (fst (init_v13 win failure p w)) = video (fst (init_v13 win' failure' p w))"
    by (simp only: init_wiring(1) [OF body])
  show "starts (fst (snd (init_v13 win failure p w))) = 0"
    by (simp add: init starts_def for_each_no_start)
  assume v: "v \<in> set (querySelectorAll p REEL_VIDEO_SELECTOR) \<and>
      autoScrollListenerAttached (video w v) = None \<and> ended_listeners (video w v) = []"
  then have fresh: "autoScrollListenerAttached (video ?w1 v) = None" "ended_listeners (video ?w1 v) = []"
    by simp_all
  from for_each_wires_once [OF fresh, of "querySelectorAll p REEL_VIDEO_SELECTOR" V13] v
  have "length (ended_listeners (video (fst ?fe) v)) = 1"
    by auto
  then show "length (ended_listeners (video (fst (init_v13 win failure p w)) v)) = 1"
    by (simp only: init_wiring(1) [OF body])
  show "ended (fst (init_v13 win failure p w)) p' v = fst (scrollToNextReel_v13 p')"
    using body v by (simp add: init_ended)
next
  show "\<exists>r. snd (setupVoiceCommands win (Some e)) = Normal r"
    by (rule setup_returns)
next
  assume "SpeechRecognition win \<noteq> None \<or> webkitSpeechRecognition win \<noteq> None"
  then show "fst (setupVoiceCommands win (Some e)) =
      [RecognitionStart, Console Error ''Could not start voice recognition:'' [Exn e]]"
    by (simp add: setup_supported)
next
  assume "body p = Some b"
  then show "snd (snd (init_v13 win (Some e) p w)) = Normal ()"
    by (rule init_wiring(3))
qed

theorem voice_unsupported_witness:
  "setupVoiceCommands no_speech None =
     ([Console Error ''Speech Recognition API not supported in this browser.'' []], Normal None) \<and>
   snd (snd (init_v13 no_speech None page_feed world0)) = Normal () \<and>
   recognition (fst (init_v13 no_speech None page_feed world0)) = None \<and>
   observers (fst (init_v13 no_speech None page_feed world0)) = [(1, OBSERVER_CONFIG)] \<and>
   video (fst (init_v13 no_speech None page_feed world0)) =
     video (fst (init_v13 webkit_speech None page_feed world0)) \<and>
   length (ended_listeners (video (fst (init_v13 no_speech None page_feed world0)) 3)) = 1 \<and>
   ended (fst (init_v13 no_speech None page_feed world0)) page_feed 3 = fst (scrollToNextReel_v13 page_feed) \<and>
   fst (setupVoiceCommands webkit_speech (Some ''InvalidStateError'')) =
     [RecognitionStart, Console Error ''Could not start voice recognition:'' [Exn ''InvalidStateError'']] \<and>
   snd (snd (init_v13 webkit_speech (Some ''InvalidStateError'') page_feed world0)) = Normal ()"
proof -
  have 1: "SpeechRecognition no_speech = None \<and> webkitSpeechRecognition no_speech = None"
    by (simp add: no_speech_def)
  have 2: "body page_feed = Some 1"
    by (simp add: page_feed_def)
  have 3: "3 \<in> set (querySelectorAll page_feed REEL_VIDEO_SELECTOR) \<and>
      autoScrollListenerAttached (video world0 3) = None \<and> ended_listeners (video world0 3) = []"
    by (simp add: page_feed_def page_eval world0_def)
  have 4: "SpeechRecognition webkit_speech \<noteq> None \<or> webkitSpeechRecognition webkit_speech \<noteq> None"
    by (simp add: webkit_speech_def)
  have 5: "observers world0 = []"
    by (simp add: world0_def)
  note a = voice_unsupported [of no_speech None page_feed 1 world0 webkit_speech None 3 page_feed
      "''InvalidStateError''"]
  note b = voice_unsupported [of webkit_speech None page_feed 1 world0 webkit_speech None 3 page_feed
      "''InvalidStateError''"]
  note a1 = a [THEN conjunct1, THEN mp, OF 1]
  note a2 = a1 [THEN conjunct2, THEN mp, OF 2]
  note a3 = a2 [THEN conjunct2, THEN conjunct2, THEN conjunct2, THEN conjunct2, THEN conjunct2,
      THEN mp, OF 3]
  note b4 = b [THEN conjunct2, THEN conjunct2, THEN conjunct1, THEN mp, OF 4]
  note b5 = b [THEN conjunct2, THEN conjunct2, THEN conjunct2, THEN mp, OF 2]
  have o: "observers (fst (init_v13 no_speech None page_feed world0)) = [(1, OBSERVER_CONFIG)]"
    using a2 5 by simp
  show ?thesis
    using a1 a2 a3 b4 b5 o by blast
qed

end
